theory Spec2Isabelle
  imports Complex_Main
begin

section \<open>JavaScript numbers\<close>

text \<open>
  A JavaScript number, as far as the engine inspects it: a finite value (a real here;
  the rounding of IEEE doubles is modelled only for the loop times of \<open>playSong\<close>) or
  one of the three non-finite values.
  A field that is missing arrives as \<open>NaN\<close>, since \<open>Number(undefined)\<close> is \<open>NaN\<close>.
\<close>

datatype jsnum = Fin real | NaN | PosInf | NegInf

text \<open>\<open>clamp(x, a, b)\<close> of the engine: a non-finite input gives the lower bound.\<close>

definition clamp :: "jsnum \<Rightarrow> real \<Rightarrow> real \<Rightarrow> real" where
  "clamp x a b = (case x of Fin n \<Rightarrow> max a (min b n) | _ \<Rightarrow> a)"

definition numOr :: "jsnum \<Rightarrow> real \<Rightarrow> real" where
  "numOr x d = (case x of Fin n \<Rightarrow> n | _ \<Rightarrow> d)"

text \<open>\<open>x || d\<close> on a number: \<open>0\<close> and \<open>NaN\<close> are falsy.\<close>

definition num_or_else :: "jsnum \<Rightarrow> real \<Rightarrow> jsnum" where
  "num_or_else x d =
     (case x of Fin n \<Rightarrow> (if n = 0 then Fin d else Fin n) | NaN \<Rightarrow> Fin d | _ \<Rightarrow> x)"

text \<open>\<open>x | 0\<close>: truncation towards zero, wrapped to 32 signed bits; non-finite gives 0.\<close>

definition toInt32 :: "jsnum \<Rightarrow> int" where
  "toInt32 x =
     (case x of
        Fin r \<Rightarrow>
          (let n = (if 0 \<le> r then \<lfloor>r\<rfloor> else \<lceil>r\<rceil>); m = n mod 2 ^ 32
           in if 2 ^ 31 \<le> m then m - 2 ^ 32 else m)
      | _ \<Rightarrow> 0)"

text \<open>\<open>Math.round\<close>: to the nearest integer, halves towards plus infinity.\<close>

definition js_round :: "real \<Rightarrow> int" where
  "js_round x = \<lfloor>x + 1 / 2\<rfloor>"

text \<open>
  \<open>Number.isFinite(x) ? x : d\<close> on a value that is computed from finite reals only:
  every real is finite, so the fallback is never taken. The function keeps the shape of
  the source.
\<close>

definition finite_or :: "real \<Rightarrow> real \<Rightarrow> real" where
  "finite_or x d = x"

section \<open>Waveform tables (engine file)\<close>

record periodic_wave =
  pw_real :: "real list"
  pw_imag :: "real list"

text \<open>
  \<open>makePulseWave(ctx, duty)\<close>: two zeroed arrays of \<open>H + 1\<close> entries, index 0 set to 0,
  then the loop \<open>k = 1 .. H\<close> writes both arrays.
\<close>

definition pulse_step :: "real \<Rightarrow> nat \<Rightarrow> real list \<times> real list \<Rightarrow> real list \<times> real list" where
  "pulse_step d k st =
     (let ang = 2 * pi * real k * d;
          a = 2 * sin ang / (pi * real k);
          b = 2 * (1 - cos ang) / (pi * real k)
      in ((fst st)[k := a], (snd st)[k := b]))"

definition makePulseWave :: "jsnum \<Rightarrow> periodic_wave" where
  "makePulseWave duty =
     (let d = clamp (num_or_else duty 0.5) 0.01 0.99;
          H = 64;
          real0 = (replicate (H + 1) 0)[0 := 0];
          imag0 = (replicate (H + 1) 0)[0 := 0];
          st = fold (pulse_step d) [1..<H + 1] (real0, imag0)
      in \<lparr>pw_real = fst st, pw_imag = snd st\<rparr>)"

text \<open>
  \<open>makeNoiseBuffer(ctx, rateHz)\<close>. \<open>gen c\<close> is the value of the \<open>c\<close>-th evaluation of
  \<open>Math.random()*2-1\<close> in the call (counted from 0); the type of the samples is left
  open so that a buffer can also be labelled with the number of the draw each sample
  holds. The loop state is the held value and the number of draws made so far.
\<close>

fun hold_loop :: "(nat \<Rightarrow> 'a) \<Rightarrow> nat \<Rightarrow> nat list \<Rightarrow> 'a \<times> nat \<Rightarrow> 'a list" where
  "hold_loop gen step [] st = []"
| "hold_loop gen step (i # is) st =
     (let st' = (if i mod step = 0 then (gen (snd st), Suc (snd st)) else st)
      in fst st' # hold_loop gen step is st')"

definition noise_len :: "real \<Rightarrow> nat" where
  "noise_len sampleRate = (let sr = toInt32 (Fin sampleRate); seconds = 2 in nat (max 1 \<lfloor>real_of_int sr * seconds\<rfloor>))"

definition noise_step :: "real \<Rightarrow> real \<Rightarrow> nat" where
  "noise_step sampleRate r = (let sr = toInt32 (Fin sampleRate) in nat (max 1 \<lfloor>real_of_int sr / max 1 r\<rfloor>))"

definition makeNoiseBuffer :: "real \<Rightarrow> jsnum \<Rightarrow> (nat \<Rightarrow> 'a) \<Rightarrow> 'a list" where
  "makeNoiseBuffer sampleRate rateHz gen =
     (let len = noise_len sampleRate
      in case rateHz of
           Fin r \<Rightarrow>
             (if r \<le> 0 then map gen [0..<len]
              else hold_loop gen (noise_step sampleRate r) [0..<len] (gen 0, 1))
         | _ \<Rightarrow> map gen [0..<len])"

section \<open>Waveform tables (tone core file)\<close>

text \<open>The loop body of \<open>_getBitDepthCurve\<close> at input \<open>x\<close>, and the 2048-point table.\<close>

definition bit_quant :: "real \<Rightarrow> real \<Rightarrow> real" where
  "bit_quant levels x =
     (let q = real_of_int (js_round ((x * 0.5 + 0.5) * (levels - 1))) / (levels - 1)
      in q * 2 - 1)"

definition clamp_bits :: "jsnum \<Rightarrow> int" where
  "clamp_bits bits = max 2 (min 16 (toInt32 bits))"

definition bitDepthCurve :: "int \<Rightarrow> real list" where
  "bitDepthCurve bits =
     (let levels = 2 ^ nat bits; n = 2048
      in map (\<lambda>i. bit_quant levels ((real i / (real n - 1)) * 2 - 1)) [0..<n])"

text \<open>
  The table of \<open>_getPulseWave\<close> for the clamped duty \<open>D\<close>: 64 entries, index 0 zero, the
  loop \<open>n = 1 .. 63\<close> writes the cosine coefficient and a zero sine coefficient.
\<close>

definition pulse_step_core :: "real \<Rightarrow> nat \<Rightarrow> real list \<times> real list \<Rightarrow> real list \<times> real list" where
  "pulse_step_core D n st =
     (let a = (2 / (real n * pi)) * sin (real n * pi * D)
      in ((fst st)[n := a], (snd st)[n := 0]))"

definition clamp_duty_core :: "jsnum \<Rightarrow> real" where
  "clamp_duty_core duty = (let D = (case duty of Fin r \<Rightarrow> r | _ \<Rightarrow> 0.5) in max 0.05 (min 0.95 D))"

definition dutyKey :: "real \<Rightarrow> real" where
  "dutyKey D = real_of_int (js_round (D * 1000)) / 1000"

definition pulseTable :: "real \<Rightarrow> periodic_wave" where
  "pulseTable D =
     (let size = 64;
          real0 = (replicate size 0)[0 := 0];
          imag0 = (replicate size 0)[0 := 0];
          st = fold (pulse_step_core D) [1..<size] (real0, imag0)
      in \<lparr>pw_real = fst st, pw_imag = snd st\<rparr>)"

text \<open>
  The sample-and-hold loop of \<open>_getNoiseBuffer\<close>: the state is \<open>last\<close> and the counter
  \<open>c\<close>; \<open>raw\<close> is the buffer of fresh random samples.
\<close>

fun sh_loop :: "'a list \<Rightarrow> nat \<Rightarrow> nat list \<Rightarrow> 'a \<times> nat \<Rightarrow> 'a list" where
  "sh_loop raw step [] st = []"
| "sh_loop raw step (i # is) st =
     (let st' = (if snd st = 0 then (raw ! i, step) else st)
      in fst st' # sh_loop raw step is (fst st', snd st' - 1))"

definition noise_key :: "real \<Rightarrow> int" where
  "noise_key rateHz = max 20 \<lfloor>rateHz\<rfloor>"

definition noise_step_core :: "real \<Rightarrow> int \<Rightarrow> nat" where
  "noise_step_core sr key = nat (max 1 \<lfloor>sr / real_of_int (max 20 key)\<rfloor>)"

definition noiseTable :: "real \<Rightarrow> int \<Rightarrow> (nat \<Rightarrow> 'a) \<Rightarrow> 'a list" where
  "noiseTable sr key gen =
     (let dur = 1;
          len = nat \<lfloor>sr * dur\<rfloor>;
          raw = map gen [0..<len];
          step = noise_step_core sr key
      in sh_loop raw step [0..<len] (raw ! 0, 0))"


section \<open>The tone core: state\<close>

text \<open>
  A filter block of a tone (\<open>toneJson.filter\<close>); a missing field is \<open>None\<close>.
\<close>

record filter_desc =
  hpf_hz :: "real option"
  lpf_hz :: "real option"
  bit_depth :: "jsnum option"
  sr_crush_hz :: "real option"

text \<open>The sample-rate crusher a bus holds, with the hold length it was built with.\<close>

datatype sr_node = WorkletCrush nat | ScriptCrush nat

text \<open>
  A bus as \<open>_getOrCreateBus\<close> builds it: the settings of its nodes, the snapshot of the
  filter block it was built from, and the identity of the object.
\<close>

record bus =
  bus_id :: nat
  hpf_frequency :: real
  lpf_frequency :: real
  shaper_curve :: "real list"
  srNode :: "sr_node option"
  outGain :: real
  filterSnapshot :: filter_desc

text \<open>
  An entry of \<open>_activeTracks\<close>. \<open>entry_id\<close> is the identity of the JavaScript object:
  \<open>===\<close> on two entries compares identities, and every entry is a fresh object.
\<close>

record track_entry =
  entry_id :: nat
  sourceNode :: nat
  gainNode :: nat
  endTime :: real
  releaseSec :: "real option"

record core_state =
  bitCurveCache :: "int \<rightharpoonup> real list"
  pulseCache :: "real \<rightharpoonup> periodic_wave"
  noiseBufCache :: "int \<rightharpoonup> real list"
  activeTracks :: "string \<rightharpoonup> track_entry"
  busCache :: "string \<rightharpoonup> bus"
  workletLoaded :: bool
  hasAudioWorkletNode :: bool
  hasScriptProcessor :: bool
  sampleRate :: real
  nextId :: nat
  fades :: "(nat \<times> real \<times> real) list"
  stops :: "(nat \<times> real) list"

text \<open>The three cached factories: a hit returns the stored table and changes nothing.\<close>

definition getBitDepthCurve :: "jsnum \<Rightarrow> core_state \<Rightarrow> real list \<times> core_state" where
  "getBitDepthCurve bits s =
     (let key = clamp_bits bits
      in case bitCurveCache s key of
           Some curve \<Rightarrow> (curve, s)
         | None \<Rightarrow>
             (let curve = bitDepthCurve key
              in (curve, s\<lparr>bitCurveCache := (bitCurveCache s)(key \<mapsto> curve)\<rparr>)))"

definition getPulseWave :: "jsnum \<Rightarrow> core_state \<Rightarrow> periodic_wave \<times> core_state" where
  "getPulseWave duty s =
     (let D = clamp_duty_core duty; key = dutyKey D
      in case pulseCache s key of
           Some wave \<Rightarrow> (wave, s)
         | None \<Rightarrow>
             (let wave = pulseTable D
              in (wave, s\<lparr>pulseCache := (pulseCache s)(key \<mapsto> wave)\<rparr>)))"

definition getNoiseBuffer :: "real \<Rightarrow> (nat \<Rightarrow> real) \<Rightarrow> core_state \<Rightarrow> real list \<times> core_state" where
  "getNoiseBuffer rateHz gen s =
     (let key = noise_key rateHz
      in case noiseBufCache s key of
           Some buf \<Rightarrow> (buf, s)
         | None \<Rightarrow>
             (let buf = noiseTable (sampleRate s) key gen
              in (buf, s\<lparr>noiseBufCache := (noiseBufCache s)(key \<mapsto> buf)\<rparr>)))"

text \<open>The state the constructor of the tone core leaves.\<close>

definition new_core :: "real \<Rightarrow> bool \<Rightarrow> bool \<Rightarrow> core_state" where
  "new_core sr worklet script =
     \<lparr>bitCurveCache = Map.empty, pulseCache = Map.empty, noiseBufCache = Map.empty,
      activeTracks = Map.empty, busCache = Map.empty, workletLoaded = False,
      hasAudioWorkletNode = worklet, hasScriptProcessor = script, sampleRate = sr,
      nextId = 0, fades = [], stops = []\<rparr>"

section \<open>The tone core: buses and monophonic tracks\<close>

text \<open>\<open>x || d\<close> on a finite number.\<close>

definition real_or_else :: "real \<Rightarrow> real \<Rightarrow> real" where
  "real_or_else x d = (if x = 0 then d else x)"

text \<open>
  \<open>_createSRCrushNode(srCrushHz)\<close>. The worklet branch carries the hold length its
  processor computes from the options it is given; a constructor that throws is not
  modelled.
\<close>

definition createSRCrushNode :: "real \<Rightarrow> core_state \<Rightarrow> sr_node option" where
  "createSRCrushNode srCrushHz s =
     (let targetHz = real_or_else srCrushHz (sampleRate s)
      in if sampleRate s - 1 \<le> targetHz then None
         else if workletLoaded s \<and> hasAudioWorkletNode s then
           (let outputSampleRate = real_or_else (sampleRate s) 44100;
                target = real_or_else (real_or_else srCrushHz (sampleRate s)) outputSampleRate
            in Some (WorkletCrush (nat (max 1 \<lfloor>outputSampleRate / max 1 target\<rfloor>))))
         else if \<not> hasScriptProcessor s then None
         else
           (let target = max 20 (min (sampleRate s) (real_or_else srCrushHz (sampleRate s)))
            in Some (ScriptCrush (nat (max 1 \<lfloor>sampleRate s / target\<rfloor>)))))"

text \<open>
  \<open>_getOrCreateBus(busKey, filter, masterGain)\<close>: the key is \<open>String(busKey || "default")\<close>;
  a cached bus is returned as it is, before any argument is looked at.
\<close>

definition bus_key :: "string \<Rightarrow> string" where
  "bus_key busKey = (if busKey = [] then ''default'' else busKey)"

definition getOrCreateBus :: "string \<Rightarrow> filter_desc \<Rightarrow> jsnum \<Rightarrow> core_state \<Rightarrow> bus \<times> core_state" where
  "getOrCreateBus busKey filt masterGain s =
     (let key = bus_key busKey
      in case busCache s key of
           Some b \<Rightarrow> (b, s)
         | None \<Rightarrow>
             (let hpf = (case hpf_hz filt of None \<Rightarrow> 20 | Some x \<Rightarrow> x);
                  lpf = (case lpf_hz filt of None \<Rightarrow> 12000 | Some x \<Rightarrow> x);
                  bd = (case bit_depth filt of None \<Rightarrow> Fin 12 | Some x \<Rightarrow> x);
                  curve = fst (getBitDepthCurve bd s);
                  s1 = snd (getBitDepthCurve bd s);
                  srCrushHz = (case sr_crush_hz filt of None \<Rightarrow> 44100 | Some x \<Rightarrow> x);
                  srn = (if 0 < srCrushHz \<and> srCrushHz < sampleRate s1
                         then createSRCrushNode srCrushHz s1 else None);
                  b = \<lparr>bus_id = nextId s1, hpf_frequency = hpf, lpf_frequency = lpf,
                       shaper_curve = curve, srNode = srn, outGain = numOr masterGain 1.0,
                       filterSnapshot = filt\<rparr>
              in (b, s1\<lparr>busCache := (busCache s1)(key \<mapsto> b), nextId := Suc (nextId s1)\<rparr>)))"

text \<open>
  A tone as the two play functions read it: the length, the release of the envelope
  (milliseconds) and the filter block. The oscillator set-up inside \<open>_buildSource\<close>
  (waveform, pitch sweep, vibrato) is not modelled: it touches the waveform caches and
  the audio graph only. \<open>_buildSource\<close> returns the new source node, the new gain node
  and the end time \<open>t0 + len/1000 + release/1000\<close> of the envelope.
\<close>

record tone_json =
  len_ms :: "real option"
  env_release :: "real option"
  tone_filter :: "filter_desc option"

definition empty_filter :: filter_desc where
  "empty_filter = \<lparr>hpf_hz = None, lpf_hz = None, bit_depth = None, sr_crush_hz = None\<rparr>"

definition applyEnvelope_end :: "real \<Rightarrow> tone_json \<Rightarrow> real" where
  "applyEnvelope_end t0 tone =
     (let R = (case env_release tone of None \<Rightarrow> 120 | Some r \<Rightarrow> r) / 1000;
          lenSec = (case len_ms tone of None \<Rightarrow> 400 | Some l \<Rightarrow> l) / 1000;
          releaseStart = t0 + lenSec
      in releaseStart + R)"

record play_result =
  startTime :: real
  res_endTime :: real
  registered :: "track_entry option"

text \<open>
  The monophonic check of \<open>playTone\<close> at clock time \<open>now\<close>: a voice still registered
  under the track is faded (logged in \<open>fades\<close>: gain node, start, end of the ramp to 0),
  its source stopped (logged in \<open>stops\<close>), and its entry deleted.
\<close>

definition cut_track :: "string option \<Rightarrow> real \<Rightarrow> core_state \<Rightarrow> core_state" where
  "cut_track trackId now s =
     (case trackId of
        None \<Rightarrow> s
      | Some tid \<Rightarrow>
          (case activeTracks s tid of
             None \<Rightarrow> s
           | Some old \<Rightarrow>
               s\<lparr>fades := fades s @ [(gainNode old, now, now + 0.01)],
                 stops := stops s @ [(sourceNode old, now + 0.02)],
                 activeTracks := (activeTracks s)(tid := None)\<rparr>))"

text \<open>
  \<open>playTone(toneJson, whenSec, trackId, monoCutMs)\<close>: the monophonic check, the per-note
  filter chain (of which only the cache of bit-depth curves is state), the source, and
  the registration of the new entry; the \<open>onended\<close> handler of the new source is
  \<open>onended\<close> below with this entry.
\<close>

definition playTone :: "tone_json \<Rightarrow> real \<Rightarrow> string option \<Rightarrow> real \<Rightarrow> core_state \<Rightarrow> play_result \<times> core_state" where
  "playTone toneJson whenSec trackId now s =
     (let t0 = now + max 0 whenSec;
          s1 = cut_track trackId now s;
          filt = (case tone_filter toneJson of None \<Rightarrow> empty_filter | Some f \<Rightarrow> f);
          bd = (case bit_depth filt of None \<Rightarrow> Fin 12 | Some x \<Rightarrow> x);
          s2 = snd (getBitDepthCurve bd s1);
          endT = applyEnvelope_end t0 toneJson;
          entry = \<lparr>entry_id = nextId s2 + 2, sourceNode = nextId s2, gainNode = nextId s2 + 1,
                   endTime = endT, releaseSec = None\<rparr>;
          s3 = s2\<lparr>nextId := nextId s2 + 3\<rparr>
      in case trackId of
           None \<Rightarrow> (\<lparr>startTime = t0, res_endTime = endT, registered = None\<rparr>, s3)
         | Some tid \<Rightarrow>
             (\<lparr>startTime = t0, res_endTime = endT, registered = Some entry\<rparr>,
              s3\<lparr>activeTracks := (activeTracks s3)(tid \<mapsto> entry)\<rparr>))"

text \<open>
  The \<open>onended\<close> handler \<open>playTone\<close> installs: delete the entry of the track only if it
  is still this voice's own.
\<close>

definition onended :: "string \<Rightarrow> track_entry \<Rightarrow> core_state \<Rightarrow> core_state" where
  "onended trackId entry s =
     (if activeTracks s trackId = Some entry
      then s\<lparr>activeTracks := (activeTracks s)(trackId := None)\<rparr>
      else s)"

text \<open>
  The monophonic check of \<open>playToneBus\<close>. The fade length \<open>r\<close> is declared inside the
  block that fades the old gain, so the \<open>stop\<close> of the old source, which reads \<open>r\<close>
  outside that block, throws into the surrounding \<open>catch\<close> and nothing is logged in
  \<open>stops\<close>.
\<close>

definition cut_track_bus :: "string option \<Rightarrow> jsnum \<Rightarrow> real \<Rightarrow> core_state \<Rightarrow> core_state" where
  "cut_track_bus trackId monoCutMs now s =
     (case trackId of
        None \<Rightarrow> s
      | Some tid \<Rightarrow>
          (case activeTracks s tid of
             None \<Rightarrow> s
           | Some old \<Rightarrow>
               (let r = (case monoCutMs of
                           Fin m \<Rightarrow> (if 0 \<le> m then max 0.005 (m / 1000)
                                      else (case releaseSec old of Some x \<Rightarrow> x | None \<Rightarrow> 0.02))
                         | _ \<Rightarrow> (case releaseSec old of Some x \<Rightarrow> x | None \<Rightarrow> 0.02))
                in s\<lparr>fades := fades s @ [(gainNode old, now, now + r)],
                     activeTracks := (activeTracks s)(tid := None)\<rparr>)))"

text \<open>
  \<open>playToneBus(toneJson, whenSec, busKey, trackId, monoCutMs)\<close>; an omitted bus key is
  \<open>"bgm"\<close>. The note is routed into the shared bus of the key. No \<open>onended\<close> handler is
  installed.
\<close>

definition playToneBus :: "tone_json \<Rightarrow> real \<Rightarrow> string option \<Rightarrow> string option \<Rightarrow> jsnum \<Rightarrow> real \<Rightarrow> core_state \<Rightarrow> real \<times> core_state" where
  "playToneBus toneJson whenSec busKey trackId monoCutMs now s =
     (let t0 = now + max 0 whenSec;
          s1 = cut_track_bus trackId monoCutMs now s;
          filt = (case tone_filter toneJson of None \<Rightarrow> empty_filter | Some f \<Rightarrow> f);
          s2 = snd (getOrCreateBus (case busKey of None \<Rightarrow> ''bgm'' | Some k \<Rightarrow> k) filt (Fin 1.0) s1);
          endT = applyEnvelope_end t0 toneJson;
          relMs = (case env_release toneJson of Some r \<Rightarrow> r | None \<Rightarrow> 10);
          entry = \<lparr>entry_id = nextId s2 + 2, sourceNode = nextId s2, gainNode = nextId s2 + 1,
                   endTime = endT, releaseSec = Some (max 0.01 (relMs / 1000))\<rparr>;
          s3 = s2\<lparr>nextId := nextId s2 + 3\<rparr>
      in case trackId of
           None \<Rightarrow> (endT, s3)
         | Some tid \<Rightarrow> (endT, s3\<lparr>activeTracks := (activeTracks s3)(tid \<mapsto> entry)\<rparr>))"

text \<open>
  The calls a client of the tone core can make, and the end of a source \<open>playTone\<close>
  started (its \<open>onended\<close> handler).
\<close>

datatype core_op =
    OpPlayTone tone_json real "string option" real
  | OpPlayToneBus tone_json real "string option" "string option" jsnum real
  | OpEnded string track_entry
  | OpBus string filter_desc jsnum
  | OpCurve jsnum
  | OpPulse jsnum
  | OpNoise real "nat \<Rightarrow> real"

fun core_step :: "core_op \<Rightarrow> core_state \<Rightarrow> core_state" where
  "core_step (OpPlayTone toneJson whenSec trackId now) s = snd (playTone toneJson whenSec trackId now s)"
| "core_step (OpPlayToneBus toneJson whenSec busKey trackId monoCutMs now) s
     = snd (playToneBus toneJson whenSec busKey trackId monoCutMs now s)"
| "core_step (OpEnded trackId entry) s = onended trackId entry s"
| "core_step (OpBus busKey filt masterGain) s = snd (getOrCreateBus busKey filt masterGain s)"
| "core_step (OpCurve bits) s = snd (getBitDepthCurve bits s)"
| "core_step (OpPulse duty) s = snd (getPulseWave duty s)"
| "core_step (OpNoise rateHz gen) s = snd (getNoiseBuffer rateHz gen s)"

section \<open>The engine: notes and voices\<close>

record adsr =
  attack :: jsnum
  decay :: jsnum
  sustain :: jsnum
  release :: jsnum

datatype mono_mode = Poly | Mono | SoftMono

text \<open>
  A tone of the bank as \<open>playNote\<close> reads it for the envelope and the mono slot. Each
  envelope field is \<open>Number(env.attack ?? env.a)\<close> and so on, \<open>tone_gain\<close> is
  \<open>Number(tone.gain)\<close>, \<open>tone_mono\<close> is \<open>tone.mono || 'poly'\<close>.
\<close>

record tone_def =
  tone_env :: "adsr option"
  tone_gain :: jsnum
  tone_mono :: mono_mode
  monoCutMs :: "real option"

text \<open>
  The parameters of \<open>playNote\<close>: \<open>p_v\<close> and \<open>p_dSec\<close> are \<open>Number(params.v)\<close> and
  \<open>Number(params.dSec)\<close> (a missing field is \<open>NaN\<close>), an empty \<open>p_busKey\<close> stands for a
  missing or empty key, \<open>p_t0 = None\<close> for a missing onset. The onset is a clock time, a
  finite real. Pitch, pan and the per-note effects are not modelled.
\<close>

record note_params =
  p_toneId :: string
  p_v :: jsnum
  p_t0 :: "real option"
  p_dSec :: jsnum
  p_busKey :: string

record note_info =
  voiceId :: nat
  n_t0 :: real
  tOff :: real
  tR :: real
  n_toneId :: string
  n_busKey :: string

record eng_bus =
  bus_gain :: real
  bus_pan :: "real option"

record mono_slot =
  stopAt :: real
  stopper :: nat

text \<open>The automation calls the engine makes on the gain of a voice (value, time).\<close>

datatype param_call =
    SetValueAtTime real real
  | ExponentialRampToValueAtTime real real
  | CancelScheduledValues real

text \<open>
  What the scheduler holds: the closure \<open>playPhrase\<close> queues, the closure \<open>playSong\<close>
  queues (with the handle it checks) and the clean-up of a voice.
\<close>

datatype action =
    PhraseNote note_params
  | SongNote nat note_params
  | VoiceCleanup nat

record engine =
  toneBank :: "(string \<rightharpoonup> tone_def) option"
  buses :: "string \<rightharpoonup> eng_bus"
  activeMono :: "string \<rightharpoonup> mono_slot"
  voiceSerial :: nat
  voices :: "nat set"
  queue :: "(real \<times> action) list"
  running :: bool
  lookaheadSec :: real
  intervalMs :: real
  gainCalls :: "nat \<rightharpoonup> param_call list"
  sourceStops :: "(nat \<times> real) list"
  errorLog :: "string list"
  stoppedSongs :: "nat set"

text \<open>The engine after its constructor: only the bus \<open>master\<close>, no bank.\<close>

definition new_engine :: "real \<Rightarrow> real \<Rightarrow> engine" where
  "new_engine lookahead interval =
     \<lparr>toneBank = None, buses = [''master'' \<mapsto> \<lparr>bus_gain = 1.0, bus_pan = Some 0\<rparr>],
      activeMono = Map.empty, voiceSerial = 1, voices = {}, queue = [], running = False,
      lookaheadSec = lookahead, intervalMs = interval, gainCalls = Map.empty,
      sourceStops = [], errorLog = [], stoppedSongs = {}\<rparr>"

text \<open>
  \<open>ClockScheduler.schedule\<close>: scan from the end past every item that is later, insert
  there.
\<close>

primrec sched_pos :: "(real \<times> action) list \<Rightarrow> real \<Rightarrow> nat \<Rightarrow> nat" where
  "sched_pos q audioTime 0 = 0"
| "sched_pos q audioTime (Suc i) =
     (if audioTime < fst (q ! i) then sched_pos q audioTime i else Suc i)"

definition schedule :: "real \<Rightarrow> action \<Rightarrow> engine \<Rightarrow> engine" where
  "schedule audioTime fn e =
     (let i = sched_pos (queue e) audioTime (length (queue e))
      in e\<lparr>queue := take i (queue e) @ [(audioTime, fn)] @ drop i (queue e)\<rparr>)"

text \<open>The interpolation helper of \<open>playNote\<close>; \<open>g0\<close> is the floor it closes over.\<close>

definition expAt :: "real \<Rightarrow> real \<Rightarrow> real \<Rightarrow> real \<Rightarrow> real \<Rightarrow> real \<Rightarrow> real" where
  "expAt g0 v0 v1 t0x t1x tx =
     (if \<not> t0x < t1x then v1
      else
        (let p = (tx - t0x) / (t1x - t0x);
             pp = max 0 (min 1 p);
             a = max g0 v0;
             b = max g0 v1
         in a * (b / a) powr pp))"

text \<open>The times and levels \<open>playNote\<close> computes from the tone and the parameters.\<close>

record envelope =
  e_t0 :: real
  peak :: real
  susLevel :: real
  tA2 :: real
  tD2 :: real
  tOff2 :: real
  tR2 :: real
  e_tOff :: real
  e_tR :: real

definition default_env :: adsr where
  "default_env = \<lparr>attack = Fin 0.005, decay = Fin 0.03, sustain = Fin 0.7, release = Fin 0.06\<rparr>"

definition note_envelope :: "tone_def \<Rightarrow> note_params \<Rightarrow> real \<Rightarrow> envelope" where
  "note_envelope tone params t0 =
     (let v = clamp (Fin (numOr (p_v params) 1.0)) 0 1;
          dSec = max 0.001 (numOr (p_dSec params) 0.25);
          env0 = (case tone_env tone of None \<Rightarrow> default_env | Some x \<Rightarrow> x);
          env_attack = numOr (attack env0) 0.005;
          env_decay = numOr (decay env0) 0.03;
          env_sustain = numOr (sustain env0) 0.7;
          env_release = numOr (release env0) 0.06;
          baseGain = numOr (tone_gain tone) 0.8;
          pk = max 0.0002 (baseGain * v);
          tA = t0 + clamp (Fin env_attack) 0 4;
          tD = tA + clamp (Fin env_decay) 0 4;
          sus = clamp (Fin env_sustain) 0 1;
          tOf = t0 + dSec;
          tRl = tOf + clamp (Fin env_release) 0.001 6;
          tA2v = finite_or tA (t0 + 0.005);
          tD2v = finite_or tD (tA2v + 0.03);
          tOff2v = finite_or tOf (t0 + 0.25);
          tR2v = finite_or tRl (tOff2v + 0.06)
      in \<lparr>e_t0 = t0, peak = pk, susLevel = max 0.0002 (pk * sus), tA2 = tA2v, tD2 = tD2v,
          tOff2 = tOff2v, tR2 = tR2v, e_tOff = tOf, e_tR = tRl\<rparr>)"

text \<open>The calls on the gain of the new voice, in the order \<open>playNote\<close> makes them.\<close>

definition adsr_schedule :: "envelope \<Rightarrow> param_call list" where
  "adsr_schedule en =
     (let g0 = 0.0001
      in [SetValueAtTime 0.0001 (e_t0 en),
          ExponentialRampToValueAtTime (peak en) (tA2 en),
          ExponentialRampToValueAtTime (susLevel en) (tD2 en)] @
         (if tOff2 en \<le> tD2 en then
            (let levelAtOff =
                   (if tOff2 en \<le> tA2 en
                    then expAt g0 g0 (peak en) (e_t0 en) (tA2 en) (tOff2 en)
                    else expAt g0 (peak en) (susLevel en) (tA2 en) (tD2 en) (tOff2 en))
             in [CancelScheduledValues (tOff2 en),
                 SetValueAtTime (max g0 levelAtOff) (tOff2 en),
                 ExponentialRampToValueAtTime g0 (tR2 en)])
          else
            [SetValueAtTime (susLevel en) (tOff2 en),
             ExponentialRampToValueAtTime g0 (tR2 en)]))"

text \<open>
  The level the release starts from: the value of the \<open>setValueAtTime\<close> call at \<open>tOff2\<close>,
  in the early branch \<open>Math.max(g0, levelAtOff)\<close> and otherwise the sustain level.
\<close>

definition release_level :: "envelope \<Rightarrow> real" where
  "release_level en =
     (if tOff2 en \<le> tD2 en
      then max 0.0001
             (if tOff2 en \<le> tA2 en
              then expAt 0.0001 0.0001 (peak en) (e_t0 en) (tA2 en) (tOff2 en)
              else expAt 0.0001 (peak en) (susLevel en) (tA2 en) (tD2 en) (tOff2 en))
      else susLevel en)"

text \<open>
  \<open>playNote(params)\<close> at clock time \<open>now\<close>. The three \<open>throw\<close>s are the \<open>Inl\<close> results,
  with the message of the error. After the checks: the mono slot of the tone is emptied
  (the \<open>stopper\<close> of the voice in it is called, logged in \<open>sourceStops\<close>), the voice gets
  the next serial, its gain gets the envelope, the source is told to stop after the
  release tail, the voice is tracked and its clean-up queued, and a non-poly voice takes
  the mono slot. The filter, the panner and the choice of the source change the audio
  graph only and are not modelled; calls into the backend are taken to succeed.
\<close>

definition start_voice :: "tone_def \<Rightarrow> note_params \<Rightarrow> string \<Rightarrow> real \<Rightarrow> engine \<Rightarrow> note_info \<times> engine" where
  "start_voice tone params busKey t0 e =
     (let toneId = p_toneId params;
          en = note_envelope tone params t0;
          monoMode = tone_mono tone;
          e1 = (if monoMode \<noteq> Poly then
                  (case activeMono e toneId of
                     None \<Rightarrow> e
                   | Some prev \<Rightarrow>
                       (let cutMs = (case monoCutMs tone of None \<Rightarrow> 12 | Some c \<Rightarrow> c)
                        in e\<lparr>sourceStops := sourceStops e @ [(stopper prev, t0 + cutMs / 1000)],
                             activeMono := (activeMono e)(toneId := None)\<rparr>))
                else e);
          vid = voiceSerial e1;
          e2 = e1\<lparr>voiceSerial := Suc vid,
                  gainCalls := (gainCalls e1)(vid \<mapsto> adsr_schedule en),
                  sourceStops := sourceStops e1 @ [(vid, e_tR en + 0.02)],
                  voices := insert vid (voices e1)\<rparr>;
          tCleanup = finite_or (tR2 en) (t0 + 1.0) + 0.10;
          e3 = schedule tCleanup (VoiceCleanup vid) e2;
          e4 = (if monoMode \<noteq> Poly
                then e3\<lparr>activeMono := (activeMono e3)(toneId \<mapsto> \<lparr>stopAt = e_tR en, stopper = vid\<rparr>)\<rparr>
                else e3)
      in (\<lparr>voiceId = vid, n_t0 = t0, tOff = e_tOff en, tR = e_tR en, n_toneId = toneId,
           n_busKey = busKey\<rparr>, e4))"

definition playNote :: "note_params \<Rightarrow> real \<Rightarrow> engine \<Rightarrow> string + note_info \<times> engine" where
  "playNote params now e =
     (case toneBank e of
        None \<Rightarrow> Inl ''toneBank not loaded''
      | Some tones \<Rightarrow>
          (case tones (p_toneId params) of
             None \<Rightarrow> Inl (''Unknown toneId: '' @ p_toneId params)
           | Some tone \<Rightarrow>
               (let t0 = (case p_t0 params of Some t \<Rightarrow> t | None \<Rightarrow> now);
                    busKey = (if p_busKey params = [] then ''master'' else p_busKey params)
                in case buses e busKey of
                     None \<Rightarrow> Inl (''Unknown bus: '' @ busKey)
                   | Some b \<Rightarrow> Inr (start_voice tone params busKey t0 e))))"

section \<open>The engine: the scheduler pump\<close>

text \<open>
  What a queued closure does when the pump calls it. An error \<open>playNote\<close> throws is
  caught by the pump and written to the console (\<open>errorLog\<close>); the closure of a song
  returns at once when its handle is stopped.
\<close>

definition run_note :: "note_params \<Rightarrow> real \<Rightarrow> engine \<Rightarrow> engine" where
  "run_note params now e =
     (case playNote params now e of
        Inl err \<Rightarrow> e\<lparr>errorLog := errorLog e @ [err]\<rparr>
      | Inr r \<Rightarrow> snd r)"

definition run_action :: "action \<Rightarrow> real \<Rightarrow> engine \<Rightarrow> engine" where
  "run_action a now e =
     (case a of
        PhraseNote params \<Rightarrow> run_note params now e
      | SongNote h params \<Rightarrow> (if h \<in> stoppedSongs e then e else run_note params now e)
      | VoiceCleanup vid \<Rightarrow> e\<lparr>voices := voices e - {vid}\<rparr>)"

text \<open>
  The measure of the pump loop: a note may queue one clean-up, a clean-up queues
  nothing.
\<close>

fun action_weight :: "action \<Rightarrow> nat" where
  "action_weight (PhraseNote params) = 2"
| "action_weight (SongNote h params) = 2"
| "action_weight (VoiceCleanup vid) = 1"

definition queue_weight :: "(real \<times> action) list \<Rightarrow> nat" where
  "queue_weight q = sum_list (map (\<lambda>x. action_weight (snd x)) q)"

lemma queue_weight_schedule:
  "queue_weight (queue (schedule t a e)) = action_weight a + queue_weight (queue e)"
proof -
  define i where "i = sched_pos (queue e) t (length (queue e))"
  have ins: "queue_weight (xs @ [(t, a)] @ ys) = action_weight a + queue_weight (xs @ ys)" for xs ys
    by (simp add: queue_weight_def)
  have "queue_weight (take i (queue e) @ [(t, a)] @ drop i (queue e))
      = action_weight a + queue_weight (take i (queue e) @ drop i (queue e))"
    by (rule ins)
  then have "queue_weight (take i (queue e) @ [(t, a)] @ drop i (queue e))
      = action_weight a + queue_weight (queue e)"
    by (simp only: append_take_drop_id)
  then show ?thesis
    by (simp add: schedule_def Let_def i_def)
qed

lemma queue_start_voice:
  "queue (snd (start_voice tone params busKey t0 e))
     = queue (schedule (finite_or (tR2 (note_envelope tone params t0)) (t0 + 1.0) + 0.10)
         (VoiceCleanup (voiceSerial e)) e)"
  by (simp add: start_voice_def Let_def schedule_def split: option.splits)

lemma queue_weight_run_note:
  "queue_weight (queue (run_note params now e)) \<le> Suc (queue_weight (queue e))"
  by (simp add: run_note_def playNote_def Let_def queue_start_voice queue_weight_schedule
      split: option.splits sum.splits)

lemma queue_weight_run_action:
  "queue_weight (queue (run_action a now (e\<lparr>queue := rest\<rparr>))) < action_weight a + queue_weight rest"
proof (cases a)
  case (PhraseNote params)
  then show ?thesis
    using queue_weight_run_note [of params now "e\<lparr>queue := rest\<rparr>"]
    by (simp add: run_action_def)
next
  case (SongNote h params)
  then show ?thesis
    using queue_weight_run_note [of params now "e\<lparr>queue := rest\<rparr>"]
    by (simp add: run_action_def)
next
  case (VoiceCleanup vid)
  then show ?thesis by (simp add: run_action_def)
qed

text \<open>
  \<open>_pump\<close>: while the head of the queue is due, take it off and call it. The clock
  reading \<open>now\<close> is the one the pump took.
\<close>

function pump_loop :: "real \<Rightarrow> real \<Rightarrow> engine \<Rightarrow> engine" where
  "pump_loop tMax now e =
     (case queue e of
        [] \<Rightarrow> e
      | it # rest \<Rightarrow>
          (if fst it \<le> tMax
           then pump_loop tMax now (run_action (snd it) now (e\<lparr>queue := rest\<rparr>))
           else e))"
  by pat_completeness auto
termination
proof (relation "measure (\<lambda>(tMax, now, e). queue_weight (queue e))")
  show "wf (measure (\<lambda>(tMax, now, e). queue_weight (queue e)))" by simp
next
  fix tMax now :: real and e :: engine and it rest
  assume q: "queue e = it # rest"
  have "queue_weight (queue (run_action (snd it) now (e\<lparr>queue := rest\<rparr>)))
      < action_weight (snd it) + queue_weight rest"
    by (rule queue_weight_run_action)
  then show "((tMax, now, run_action (snd it) now (e\<lparr>queue := rest\<rparr>)), (tMax, now, e))
      \<in> measure (\<lambda>(tMax, now, e). queue_weight (queue e))"
    by (simp add: q queue_weight_def)
qed

declare pump_loop.simps [simp del]

definition pump :: "real \<Rightarrow> engine \<Rightarrow> engine" where
  "pump now e = (if \<not> running e then e else pump_loop (now + lookaheadSec e) now e)"

section \<open>The engine: phrases\<close>

text \<open>
  An event of a phrase or of a track: \<open>ev_t\<close> is \<open>ev.t || 0\<close>, an empty \<open>ev_toneId\<close> or
  \<open>ev_busKey\<close> a missing one.
\<close>

record phrase_event =
  ev_t :: real
  ev_d :: "real option"
  ev_v :: "jsnum option"
  ev_toneId :: string
  ev_busKey :: string

record phrase =
  ph_tempo :: "real option"
  ph_events :: "phrase_event list"

record phrase_opts =
  po_tempo :: "real option"
  po_busKey :: "string option"
  po_toneId :: "string option"
  po_tStart :: "real option"

record phrase_result =
  pr_tStart :: real
  pr_tempo :: real
  pr_count :: nat

definition phrase_event_note :: "real \<Rightarrow> real \<Rightarrow> string \<Rightarrow> string \<Rightarrow> phrase_event \<Rightarrow> (real \<times> note_params) option" where
  "phrase_event_note tStart beatSec busKeyDefault toneIdDefault ev =
     (let t = tStart + ev_t ev * beatSec;
          dBeat = (case ev_d ev of None \<Rightarrow> 0.25 | Some d \<Rightarrow> d);
          dSec = max 0.001 (dBeat * beatSec);
          toneId = (if ev_toneId ev \<noteq> [] then ev_toneId ev else toneIdDefault)
      in if toneId = [] then None
         else
           (let v = (case ev_v ev of None \<Rightarrow> Fin 1.0 | Some x \<Rightarrow> x);
                busKey = (if ev_busKey ev \<noteq> [] then ev_busKey ev else busKeyDefault)
            in Some (t, \<lparr>p_toneId = toneId, p_v = v, p_t0 = Some t, p_dSec = Fin dSec,
                         p_busKey = busKey\<rparr>)))"

definition playPhrase :: "phrase \<Rightarrow> phrase_opts \<Rightarrow> real \<Rightarrow> engine \<Rightarrow> phrase_result \<times> engine" where
  "playPhrase ph opts now e =
     (let tempo = (case po_tempo opts of Some x \<Rightarrow> x
                   | None \<Rightarrow> (case ph_tempo ph of Some x \<Rightarrow> x | None \<Rightarrow> 120));
          busKeyDefault = (case po_busKey opts of Some k \<Rightarrow> k | None \<Rightarrow> ''master'');
          toneIdDefault = (case po_toneId opts of Some k \<Rightarrow> k | None \<Rightarrow> []);
          tStart = (case po_tStart opts of Some t \<Rightarrow> t | None \<Rightarrow> now);
          beatSec = 60 / max 1 tempo;
          e' = fold (\<lambda>ev e. case phrase_event_note tStart beatSec busKeyDefault toneIdDefault ev of
                              None \<Rightarrow> e
                            | Some (t, params) \<Rightarrow> schedule t (PhraseNote params) e)
                 (ph_events ph) e
      in (\<lparr>pr_tStart = tStart, pr_tempo = tempo, pr_count = length (ph_events ph)\<rparr>, e'))"

section \<open>Double-precision arithmetic\<close>

text \<open>
  The numbers of the engine are IEEE 754 doubles. Where the rounding of the arithmetic
  is the subject, which is for the start times of the loop windows of \<open>playSong\<close>, an
  operation is the exact operation on the reals followed by \<open>fl\<close>: rounding to the
  nearest number with a significand of 53 bits, a tie going to the even significand.
  The range of the exponent is not modelled: there is no overflow to \<open>Infinity\<close> and
  there are no subnormal numbers. Everywhere else the numbers are reals and the
  arithmetic is exact.
\<close>

definition rne :: "real \<Rightarrow> int" where
  "rne y = (let f = \<lfloor>y\<rfloor>; d = y - of_int f
            in if d < 1 / 2 then f
               else if 1 / 2 < d then f + 1
               else if even f then f else f + 1)"

definition fl :: "real \<Rightarrow> real" where
  "fl x = (if x = 0 then 0
           else (let e = \<lfloor>log 2 \<bar>x\<bar>\<rfloor>;
                     q = 2 powr (of_int e - 52)
                 in of_int (rne (x / q)) * q))"

definition fadd :: "real \<Rightarrow> real \<Rightarrow> real" where
  "fadd x y = fl (x + y)"

definition fsub :: "real \<Rightarrow> real \<Rightarrow> real" where
  "fsub x y = fl (x - y)"

definition fmul :: "real \<Rightarrow> real \<Rightarrow> real" where
  "fmul x y = fl (x * y)"

definition fdiv :: "real \<Rightarrow> real \<Rightarrow> real" where
  "fdiv x y = fl (x / y)"

section \<open>The engine: songs and loop windows\<close>

record track =
  tr_busKey :: string
  tr_toneId :: string
  tr_events :: "phrase_event list"

text \<open>
  A song; the bounds of a loop window are finite numbers (beats). \<open>loopClamp\<close> is
  \<open>opts.loopClamp !== false\<close>.
\<close>

record song =
  sg_tempo :: "real option"
  sg_tracks :: "track list"
  sg_loop :: "(real \<times> real) option"

record song_opts =
  so_tempo :: "real option"
  so_tStart :: "real option"
  so_loop :: "(real \<times> real) option"
  loopClamp :: bool
  loopLeadSec :: "real option"

text \<open>A scheduling window \<open>{start, end}\<close>; the end may be \<open>Infinity\<close>.\<close>

record window =
  w_start :: real
  w_end :: jsnum

text \<open>\<open>bt >= x\<close> for a number \<open>x\<close> that need not be finite.\<close>

definition js_ge :: "real \<Rightarrow> jsnum \<Rightarrow> bool" where
  "js_ge bt x = (case x of Fin y \<Rightarrow> y \<le> bt | NegInf \<Rightarrow> True | _ \<Rightarrow> False)"

text \<open>
  The loop clamp of \<open>scheduleTracks\<close> on the duration (beats) of an event at beat \<open>bt\<close>:
  \<open>None\<close> is the \<open>continue\<close> that drops the event.
\<close>

definition loop_clamp :: "bool \<Rightarrow> window option \<Rightarrow> real \<Rightarrow> real \<Rightarrow> real option" where
  "loop_clamp clampOn onlyWindow bt dBeat =
     (case onlyWindow of
        None \<Rightarrow> Some dBeat
      | Some w \<Rightarrow>
          (case w_end w of
             Fin wend \<Rightarrow>
               (if clampOn then
                  (let eps = 1 / 10 ^ 9; endBeat = bt + dBeat
                   in if wend - eps < endBeat
                      then (let d' = max 0 ((wend - bt) - eps) in if d' \<le> 0 then None else Some d')
                      else Some dBeat)
                else Some dBeat)
           | _ \<Rightarrow> Some dBeat))"

text \<open>The body of the inner loop of \<open>scheduleTracks\<close>: the time and the note of an event.\<close>

definition song_event_note :: "bool \<Rightarrow> real \<Rightarrow> real \<Rightarrow> real \<Rightarrow> window option \<Rightarrow> real \<Rightarrow> track \<Rightarrow> phrase_event \<Rightarrow> (real \<times> note_params) option" where
  "song_event_note clampOn beatSec tBase beatShift onlyWindow windowBeatBase tr ev =
     (let busKeyDefault = (if tr_busKey tr \<noteq> [] then tr_busKey tr else ''master'');
          toneIdDefault = tr_toneId tr;
          bt = ev_t ev
      in if (case onlyWindow of None \<Rightarrow> False | Some w \<Rightarrow> bt < w_start w \<or> js_ge bt (w_end w))
         then None
         else
           (let beatInWin = bt - windowBeatBase;
                beat = beatInWin + beatShift;
                t = tBase + beat * beatSec
            in case loop_clamp clampOn onlyWindow bt (case ev_d ev of None \<Rightarrow> 0.25 | Some d \<Rightarrow> d) of
                 None \<Rightarrow> None
               | Some dBeat \<Rightarrow>
                   (let dSec = max 0.001 (dBeat * beatSec);
                        toneId = (if ev_toneId ev \<noteq> [] then ev_toneId ev else toneIdDefault)
                    in if toneId = [] then None
                       else
                         (let v = (case ev_v ev of None \<Rightarrow> Fin 1.0 | Some x \<Rightarrow> x);
                              busKey = (if ev_busKey ev \<noteq> [] then ev_busKey ev else busKeyDefault)
                          in Some (t, \<lparr>p_toneId = toneId, p_v = v, p_t0 = Some t,
                                       p_dSec = Fin dSec, p_busKey = busKey\<rparr>)))))"

definition scheduleTracks :: "song \<Rightarrow> bool \<Rightarrow> nat \<Rightarrow> real \<Rightarrow> real \<Rightarrow> real \<Rightarrow> window option \<Rightarrow> real \<Rightarrow> engine \<Rightarrow> engine" where
  "scheduleTracks sg clampOn h beatSec tBase beatShift onlyWindow windowBeatBase e =
     fold (\<lambda>tr. fold (\<lambda>ev e. case song_event_note clampOn beatSec tBase beatShift onlyWindow
                                      windowBeatBase tr ev of
                               None \<Rightarrow> e
                             | Some (t, params) \<Rightarrow> schedule t (SongNote h params) e)
                     (tr_events tr))
       (sg_tracks sg) e"

text \<open>
  What \<open>playSong\<close> leaves behind for its interval timer: the constants of the loop and
  the integer counter \<open>nextLoopI\<close>.
\<close>

record song_player =
  sp_handle :: nat
  sp_beatSec :: real
  sp_clamp :: bool
  sp_loopStart :: real
  sp_loopEnd :: real
  sp_loopLenSec :: real
  sp_loopBaseT :: real
  sp_loopLeadSec :: real
  nextLoopI :: nat

text \<open>
  The start \<open>loopBaseT + nextLoopI * loopLenSec\<close> of repeat number \<open>i\<close>, in doubles: the
  product is rounded, then the sum. The counter is a natural number; as a double it is
  exact below \<open>2 ^ 53\<close>. Then the call
  \<open>scheduleTracks(nextLoopT, 0, {start: loop.start, end: loop.end}, loop.start)\<close> that
  places one repeat of the window.
\<close>

definition loop_window_start :: "song_player \<Rightarrow> nat \<Rightarrow> real" where
  "loop_window_start sp i = fadd (sp_loopBaseT sp) (fmul (real i) (sp_loopLenSec sp))"

definition schedule_loop_window :: "song \<Rightarrow> song_player \<Rightarrow> real \<Rightarrow> engine \<Rightarrow> engine" where
  "schedule_loop_window sg sp nextLoopT e =
     scheduleTracks sg (sp_clamp sp) (sp_handle sp) (sp_beatSec sp) nextLoopT 0
       (Some \<lparr>w_start = sp_loopStart sp, w_end = Fin (sp_loopEnd sp)\<rparr>) (sp_loopStart sp) e"

text \<open>
  The \<open>while\<close> loop of \<open>pumpLoop\<close>: schedule repeats until the next one starts after
  \<open>tMax\<close>. The loop has no bound of its own, so not returning is the value \<open>None\<close>.
\<close>

partial_function (option) loop_fill :: "song \<Rightarrow> real \<Rightarrow> song_player \<Rightarrow> engine \<Rightarrow> (song_player \<times> engine) option" where
  "loop_fill sg tMax sp e =
     (if loop_window_start sp (nextLoopI sp) \<le> tMax
      then
        (let nextLoopT = loop_window_start sp (nextLoopI sp);
             e' = schedule_loop_window sg sp nextLoopT e
         in loop_fill sg tMax (sp\<lparr>nextLoopI := Suc (nextLoopI sp)\<rparr>) e')
      else Some (sp, e))"

definition pumpLoop :: "song \<Rightarrow> real \<Rightarrow> song_player \<Rightarrow> engine \<Rightarrow> (song_player \<times> engine) option" where
  "pumpLoop sg now sp e =
     (if sp_handle sp \<in> stoppedSongs e then Some (sp, e)
      else loop_fill sg (fadd (fadd now (lookaheadSec e)) (sp_loopLeadSec sp)) sp e)"

text \<open>
  The tempo \<open>opts.tempo ?? song.tempo ?? 120\<close>, and
  \<open>playSong(song, opts)\<close> with the fresh handle \<open>h\<close>, at clock time \<open>now\<close>. With a loop
  window: the intro up to the end of the window, whatever lies after it, the first
  repeat at \<open>loopBaseT\<close>, then the first run of \<open>pumpLoop\<close>; the result carries the
  player for the later runs. Without one: everything once, and no player. The beat
  length and the constants of the loop are computed in doubles, one rounding for each
  operation of the source; the times of the events inside \<open>scheduleTracks\<close> are exact.
\<close>

definition resolved_tempo :: "song \<Rightarrow> song_opts \<Rightarrow> real" where
  "resolved_tempo sg opts = (case so_tempo opts of Some x \<Rightarrow> x
                   | None \<Rightarrow> (case sg_tempo sg of Some x \<Rightarrow> x | None \<Rightarrow> 120))"

definition playSong :: "song \<Rightarrow> song_opts \<Rightarrow> nat \<Rightarrow> real \<Rightarrow> engine \<Rightarrow> (song_player option \<times> engine) option" where
  "playSong sg opts h now e =
     (let tempo = resolved_tempo sg opts;
          tStart = (case so_tStart opts of Some t \<Rightarrow> t | None \<Rightarrow> now);
          loop = (case so_loop opts of Some l \<Rightarrow> Some l | None \<Rightarrow> sg_loop sg);
          beatSec = fdiv 60 (max 1 tempo)
      in case loop of
           None \<Rightarrow> Some (None, scheduleTracks sg (loopClamp opts) h beatSec tStart 0 None 0 e)
         | Some (loop_start, loop_end) \<Rightarrow>
             (if loop_start < loop_end then
                (let e1 = scheduleTracks sg (loopClamp opts) h beatSec tStart 0
                            (Some \<lparr>w_start = 0, w_end = Fin loop_end\<rparr>) 0 e;
                     e2 = scheduleTracks sg (loopClamp opts) h beatSec tStart 0
                            (Some \<lparr>w_start = loop_end, w_end = PosInf\<rparr>) 0 e1;
                     loopLenBeats = fsub loop_end loop_start;
                     loopLenSec = fmul loopLenBeats beatSec;
                     loopBaseT = fadd tStart (fmul loop_end beatSec);
                     lead = (case loopLeadSec opts of Some x \<Rightarrow> x | None \<Rightarrow> 6.0);
                     sp0 = \<lparr>sp_handle = h, sp_beatSec = beatSec, sp_clamp = loopClamp opts,
                            sp_loopStart = loop_start, sp_loopEnd = loop_end,
                            sp_loopLenSec = loopLenSec, sp_loopBaseT = loopBaseT,
                            sp_loopLeadSec = lead, nextLoopI = 0\<rparr>;
                     e3 = schedule_loop_window sg sp0 loopBaseT e2;
                     sp = sp0\<lparr>nextLoopI := 1\<rparr>
                 in case pumpLoop sg now sp e3 of
                      None \<Rightarrow> None
                    | Some (sp', e4) \<Rightarrow> Some (Some sp', e4))
              else Some (None, scheduleTracks sg (loopClamp opts) h beatSec tStart 0 None 0 e)))"

section \<open>The automation timeline of the audio backend\<close>

text \<open>
  Modelled from the spec: the audio backend's scheduled automation of a parameter, which
  is not part of the repository (the engine only calls it). The model follows the Web
  Audio rules for the three calls the engine makes. The timeline keeps the events in
  time order, a new event going after the ones already at its time;
  \<open>cancelScheduledValues(t)\<close> removes the events at or after \<open>t\<close>. At a time \<open>t\<close> the
  value is that of the last event at or before \<open>t\<close>, unless the next event is an
  exponential ramp: then the value moves from the last event's value \<open>V0\<close> at its time
  \<open>T0\<close> to the ramp's value \<open>V1\<close> at its time \<open>T1\<close> as
  \<open>V0 * (V1 / V0) ^ ((t - T0) / (T1 - T0))\<close> (for \<open>V0\<close> and \<open>V1\<close> of the same sign).
  Before the first event the parameter has its default value.
\<close>

fun ev_time :: "param_call \<Rightarrow> real" where
  "ev_time (SetValueAtTime v t) = t"
| "ev_time (ExponentialRampToValueAtTime v t) = t"
| "ev_time (CancelScheduledValues t) = t"

fun ev_value :: "param_call \<Rightarrow> real" where
  "ev_value (SetValueAtTime v t) = v"
| "ev_value (ExponentialRampToValueAtTime v t) = v"
| "ev_value (CancelScheduledValues t) = 0"

definition apply_call :: "param_call \<Rightarrow> param_call list \<Rightarrow> param_call list" where
  "apply_call c evs =
     (case c of
        CancelScheduledValues tc \<Rightarrow> filter (\<lambda>x. ev_time x < tc) evs
      | _ \<Rightarrow> takeWhile (\<lambda>x. ev_time x \<le> ev_time c) evs @ [c] @
             dropWhile (\<lambda>x. ev_time x \<le> ev_time c) evs)"

definition timeline :: "param_call list \<Rightarrow> param_call list" where
  "timeline calls = fold apply_call calls []"

definition exp_interp :: "real \<Rightarrow> real \<Rightarrow> real \<Rightarrow> real \<Rightarrow> real \<Rightarrow> real" where
  "exp_interp V0 V1 T0 T1 t =
     (if 0 < V0 * V1 then V0 * (V1 / V0) powr ((t - T0) / (T1 - T0)) else V0)"

fun value_from :: "real \<Rightarrow> real \<Rightarrow> param_call list \<Rightarrow> real \<Rightarrow> real" where
  "value_from V0 T0 [] t = V0"
| "value_from V0 T0 (ev # evs) t =
     (if ev_time ev \<le> t then value_from (ev_value ev) (ev_time ev) evs t
      else (case ev of
              ExponentialRampToValueAtTime V1 T1 \<Rightarrow> exp_interp V0 V1 T0 T1 t
            | _ \<Rightarrow> V0))"

definition param_value :: "real \<Rightarrow> param_call list \<Rightarrow> real \<Rightarrow> real" where
  "param_value dflt calls t =
     (case timeline calls of
        [] \<Rightarrow> dflt
      | ev # evs \<Rightarrow> if t < ev_time ev then dflt else value_from (ev_value ev) (ev_time ev) evs t)"

section \<open>A small bank for worked examples\<close>

definition lead_tone :: tone_def where
  "lead_tone = \<lparr>tone_env = None, tone_gain = NaN, tone_mono = Mono, monoCutMs = None\<rparr>"

definition demo_engine :: engine where
  "demo_engine = (new_engine 0.12 25)\<lparr>toneBank := Some [''lead'' \<mapsto> lead_tone], running := True\<rparr>"

definition nope_phrase :: phrase where
  "nope_phrase = \<lparr>ph_tempo = None, ph_events =
     [\<lparr>ev_t = 0, ev_d = None, ev_v = None, ev_toneId = ''nope'', ev_busKey = []\<rparr>]\<rparr>"

definition no_opts :: phrase_opts where
  "no_opts = \<lparr>po_tempo = None, po_busKey = None, po_toneId = None, po_tStart = None\<rparr>"

definition crunchy :: filter_desc where
  "crunchy = \<lparr>hpf_hz = Some 100, lpf_hz = Some 4000, bit_depth = Some (Fin 6), sr_crush_hz = Some 11025\<rparr>"

definition short_tone :: tone_json where
  "short_tone = \<lparr>len_ms = Some 100, env_release = Some 50, tone_filter = None\<rparr>"

definition lead_note :: note_params where
  "lead_note = \<lparr>p_toneId = ''lead'', p_v = NaN, p_t0 = Some 0, p_dSec = Fin (1 / 10), p_busKey = []\<rparr>"


definition late_event :: phrase_event where
  "late_event = \<lparr>ev_t = 3, ev_d = Some 2, ev_v = None, ev_toneId = [], ev_busKey = []\<rparr>"

definition beat_track :: track where
  "beat_track = \<lparr>tr_busKey = [], tr_toneId = ''lead'', tr_events =
     [\<lparr>ev_t = 0, ev_d = Some 1, ev_v = None, ev_toneId = [], ev_busKey = []\<rparr>, late_event]\<rparr>"

definition slow_song :: song where
  "slow_song = \<lparr>sg_tempo = Some (1 / 2), sg_tracks = [beat_track], sg_loop = Some (0, 4)\<rparr>"

definition march_song :: song where
  "march_song = \<lparr>sg_tempo = Some 120, sg_tracks = [beat_track], sg_loop = Some (0, 4)\<rparr>"

definition brisk_song :: song where
  "brisk_song = \<lparr>sg_tempo = Some 90, sg_tracks = [beat_track], sg_loop = Some (0, 1)\<rparr>"

definition plain_opts :: song_opts where
  "plain_opts = \<lparr>so_tempo = None, so_tStart = None, so_loop = None, loopClamp = True, loopLeadSec = None\<rparr>"

definition snap_tone :: tone_def where
  "snap_tone = \<lparr>tone_env = Some \<lparr>attack = Fin 0.01, decay = Fin 0, sustain = Fin 0, release = Fin 0.1\<rparr>,
                 tone_gain = NaN, tone_mono = Poly, monoCutMs = None\<rparr>"

definition long_note :: note_params where
  "long_note = \<lparr>p_toneId = ''snap'', p_v = NaN, p_t0 = Some 0, p_dSec = Fin 1, p_busKey = []\<rparr>"

definition snap_engine :: engine where
  "snap_engine = (new_engine 0.12 25)\<lparr>toneBank := Some [''snap'' \<mapsto> snap_tone]\<rparr>"

definition quick_note :: note_params where
  "quick_note = \<lparr>p_toneId = ''lead'', p_v = NaN, p_t0 = Some 0, p_dSec = Fin (1 / 500), p_busKey = []\<rparr>"

definition mid_note :: note_params where
  "mid_note = \<lparr>p_toneId = ''lead'', p_v = NaN, p_t0 = Some 0, p_dSec = Fin (1 / 50), p_busKey = []\<rparr>"

section \<open>Properties of the waveform tables\<close>

subsection \<open>Pulse waves\<close>

lemma fold_pulse_step_length:
  "length (fst (fold (pulse_step d) ks st)) = length (fst st) \<and>
   length (snd (fold (pulse_step d) ks st)) = length (snd st)"
  by (induction ks arbitrary: st) (simp_all add: pulse_step_def Let_def)

lemma fold_pulse_step_real:
  "j < length (fst st) \<Longrightarrow>
   fst (fold (pulse_step d) ks st) ! j =
     (if j \<in> set ks then 2 * sin (2 * pi * real j * d) / (pi * real j) else fst st ! j)"
proof (induction ks arbitrary: st)
  case Nil
  then show ?case by simp
next
  case (Cons k ks)
  have len: "j < length (fst (pulse_step d k st))"
    using Cons.prems by (simp add: pulse_step_def Let_def)
  show ?case
    using Cons.IH [OF len] Cons.prems
    by (auto simp: pulse_step_def Let_def nth_list_update)
qed

lemma fold_pulse_step_imag:
  "j < length (snd st) \<Longrightarrow>
   snd (fold (pulse_step d) ks st) ! j =
     (if j \<in> set ks then 2 * (1 - cos (2 * pi * real j * d)) / (pi * real j) else snd st ! j)"
proof (induction ks arbitrary: st)
  case Nil
  then show ?case by simp
next
  case (Cons k ks)
  have len: "j < length (snd (pulse_step d k st))"
    using Cons.prems by (simp add: pulse_step_def Let_def)
  show ?case
    using Cons.IH [OF len] Cons.prems
    by (auto simp: pulse_step_def Let_def nth_list_update)
qed

lemma makePulseWave_real:
  "k \<le> 64 \<Longrightarrow> pw_real (makePulseWave duty) ! k =
     (if k = 0 then 0 else 2 * sin (2 * pi * real k * clamp (num_or_else duty 0.5) 0.01 0.99) / (pi * real k))"
  by (simp add: makePulseWave_def Let_def fold_pulse_step_real nth_list_update nth_replicate del: upt_Suc replicate_Suc)

lemma makePulseWave_imag:
  "k \<le> 64 \<Longrightarrow> pw_imag (makePulseWave duty) ! k =
     (if k = 0 then 0 else 2 * (1 - cos (2 * pi * real k * clamp (num_or_else duty 0.5) 0.01 0.99)) / (pi * real k))"
  by (simp add: makePulseWave_def Let_def fold_pulse_step_imag nth_list_update nth_replicate del: upt_Suc replicate_Suc)

lemma makePulseWave_length:
  "length (pw_real (makePulseWave duty)) = 65 \<and> length (pw_imag (makePulseWave duty)) = 65"
  by (simp add: makePulseWave_def Let_def fold_pulse_step_length del: upt_Suc replicate_Suc)

lemma fold_pulse_step_core_length:
  "length (fst (fold (pulse_step_core D) ks st)) = length (fst st) \<and>
   length (snd (fold (pulse_step_core D) ks st)) = length (snd st)"
  by (induction ks arbitrary: st) (simp_all add: pulse_step_core_def Let_def)

lemma fold_pulse_step_core_real:
  "j < length (fst st) \<Longrightarrow>
   fst (fold (pulse_step_core D) ks st) ! j =
     (if j \<in> set ks then (2 / (real j * pi)) * sin (real j * pi * D) else fst st ! j)"
proof (induction ks arbitrary: st)
  case Nil
  then show ?case by simp
next
  case (Cons k ks)
  have len: "j < length (fst (pulse_step_core D k st))"
    using Cons.prems by (simp add: pulse_step_core_def Let_def)
  show ?case
    using Cons.IH [OF len] Cons.prems
    by (auto simp: pulse_step_core_def Let_def nth_list_update)
qed

lemma fold_pulse_step_core_imag:
  "j < length (snd st) \<Longrightarrow>
   snd (fold (pulse_step_core D) ks st) ! j = (if j \<in> set ks then 0 else snd st ! j)"
proof (induction ks arbitrary: st)
  case Nil
  then show ?case by simp
next
  case (Cons k ks)
  have len: "j < length (snd (pulse_step_core D k st))"
    using Cons.prems by (simp add: pulse_step_core_def Let_def)
  show ?case
    using Cons.IH [OF len] Cons.prems
    by (auto simp: pulse_step_core_def Let_def nth_list_update)
qed

lemma pulseTable_real:
  "k < 64 \<Longrightarrow> pw_real (pulseTable D) ! k =
     (if k = 0 then 0 else 2 * sin (real k * pi * D) / (real k * pi))"
  by (simp add: pulseTable_def Let_def fold_pulse_step_core_real nth_list_update nth_replicate
      del: upt_Suc replicate_Suc)

lemma pulseTable_imag: "k < 64 \<Longrightarrow> pw_imag (pulseTable D) ! k = 0"
  by (simp add: pulseTable_def Let_def fold_pulse_step_core_imag nth_list_update nth_replicate
      del: upt_Suc replicate_Suc)

lemma pulseTable_length:
  "length (pw_real (pulseTable D)) = 64 \<and> length (pw_imag (pulseTable D)) = 64"
  by (simp add: pulseTable_def Let_def fold_pulse_step_core_length del: upt_Suc replicate_Suc)

lemma getPulseWave_miss:
  "pulseCache s (dutyKey (clamp_duty_core duty)) = None \<Longrightarrow>
   fst (getPulseWave duty s) = pulseTable (clamp_duty_core duty)"
  by (simp add: getPulseWave_def Let_def)

text \<open>
  C4 (amended). Both pulse tables have a zero DC entry in both arrays. \<open>makePulseWave\<close>
  (65 entries, duty clamped to [0.01, 0.99]) has the cosine coefficient
  \<open>2 sin(2 pi k d) / (pi k)\<close> and the sine coefficient \<open>2 (1 - cos(2 pi k d)) / (pi k)\<close> for
  \<open>1 \<le> k \<le> 64\<close>. \<open>_getPulseWave\<close> (64 entries, duty clamped to [0.05, 0.95]), when the
  duty key is not cached, has the cosine coefficient \<open>2 sin(k pi D) / (k pi)\<close> and a zero
  sine coefficient for \<open>1 \<le> k \<le> 63\<close>. A duty inside [0.05, 0.95] is not changed by
  either clamp.
\<close>

theorem pulse_wave_coefficients:
  assumes "1 \<le> k" and "k \<le> 64"
    and "pulseCache s (dutyKey (clamp_duty_core duty)) = None"
  shows "(let d = clamp (num_or_else duty 0.5) 0.01 0.99; w = makePulseWave duty
          in length (pw_real w) = 65 \<and> length (pw_imag w) = 65 \<and>
             pw_real w ! 0 = 0 \<and> pw_imag w ! 0 = 0 \<and>
             pw_real w ! k = 2 * sin (2 * pi * real k * d) / (pi * real k) \<and>
             pw_imag w ! k = 2 * (1 - cos (2 * pi * real k * d)) / (pi * real k)) \<and>
         (let D = clamp_duty_core duty; w = fst (getPulseWave duty s)
          in length (pw_real w) = 64 \<and> length (pw_imag w) = 64 \<and>
             pw_real w ! 0 = 0 \<and> pw_imag w ! 0 = 0 \<and>
             (k \<le> 63 \<longrightarrow> pw_real w ! k = 2 * sin (real k * pi * D) / (real k * pi) \<and>
                            pw_imag w ! k = 0)) \<and>
         (\<forall>x. 0.05 \<le> x \<and> x \<le> 0.95 \<longrightarrow>
              clamp_duty_core (Fin x) = x \<and> clamp (num_or_else (Fin x) 0.5) 0.01 0.99 = x)"
proof -
  have eng: "pw_real (makePulseWave duty) ! k
        = 2 * sin (2 * pi * real k * clamp (num_or_else duty 0.5) 0.01 0.99) / (pi * real k)"
      "pw_imag (makePulseWave duty) ! k
        = 2 * (1 - cos (2 * pi * real k * clamp (num_or_else duty 0.5) 0.01 0.99)) / (pi * real k)"
    using assms(1,2) by (simp_all add: makePulseWave_real makePulseWave_imag)
  have eng0: "pw_real (makePulseWave duty) ! 0 = 0" "pw_imag (makePulseWave duty) ! 0 = 0"
    by (simp_all add: makePulseWave_real makePulseWave_imag)
  have core: "fst (getPulseWave duty s) = pulseTable (clamp_duty_core duty)"
    by (rule getPulseWave_miss [OF assms(3)])
  have core0: "pw_real (pulseTable (clamp_duty_core duty)) ! 0 = 0"
      "pw_imag (pulseTable (clamp_duty_core duty)) ! 0 = 0"
    by (simp_all add: pulseTable_real pulseTable_imag)
  have corek: "k \<le> 63 \<longrightarrow>
      pw_real (pulseTable (clamp_duty_core duty)) ! k
        = 2 * sin (real k * pi * clamp_duty_core duty) / (real k * pi) \<and>
      pw_imag (pulseTable (clamp_duty_core duty)) ! k = 0"
    using assms(1) by (simp add: pulseTable_real pulseTable_imag)
  have cl: "\<forall>x::real. 0.05 \<le> x \<and> x \<le> 0.95 \<longrightarrow>
      clamp_duty_core (Fin x) = x \<and> clamp (num_or_else (Fin x) 0.5) 0.01 0.99 = x"
    by (auto simp: clamp_duty_core_def clamp_def num_or_else_def Let_def)
  show ?thesis
    unfolding Let_def core
    using eng eng0 core0 corek cl makePulseWave_length [of duty]
      pulseTable_length [of "clamp_duty_core duty"]
    by blast
qed

theorem pulse_wave_coefficients_witness:
  "pw_real (fst (getPulseWave (Fin (1 / 4)) (new_core 44100 False True))) ! 1 = 2 * sin (pi / 4) / pi \<and>
   pw_real (makePulseWave (Fin (1 / 4))) ! 1 = 2 / pi \<and>
   pw_imag (makePulseWave (Fin (1 / 4))) ! 1 = 2 / pi \<and>
   pw_real (makePulseWave (Fin (1 / 4))) ! 0 = 0"
proof -
  have miss: "pulseCache (new_core 44100 False True) (dutyKey (clamp_duty_core (Fin (1 / 4)))) = None"
    by (simp add: new_core_def)
  have one: "(1::nat) \<le> 1" "(1::nat) \<le> 64" by simp_all
  have c1: "clamp_duty_core (Fin (1 / 4)) = 1 / 4"
    by (simp add: clamp_duty_core_def Let_def)
  have c2: "clamp (num_or_else (Fin (1 / 4)) 0.5) 0.01 0.99 = 1 / 4"
    by (simp add: clamp_def num_or_else_def)
  show ?thesis
    using pulse_wave_coefficients [OF one miss]
    unfolding Let_def c1 c2 by simp
qed

text \<open>
  C4 as stated fails: at duty 1/4 the first cosine coefficient of \<open>makePulseWave\<close> is
  \<open>2 / pi\<close>, not \<open>2 sin(pi / 4) / pi\<close>.
\<close>

theorem pulse_wave_counterexample: "pw_real (makePulseWave (Fin (1 / 4))) ! 1 \<noteq> 2 * sin (1 * pi * (1 / 4)) / (1 * pi)"
proof -
  have a: "pw_real (makePulseWave (Fin (1 / 4))) ! 1 = 2 / pi"
    using makePulseWave_real [of 1 "Fin (1/4)"]
    by (simp add: clamp_def num_or_else_def)
  have b: "2 * sin (1 * pi * (1 / 4)) / (1 * pi) = sqrt 2 / pi"
    by (simp add: sin_45)
  have "sqrt 2 \<noteq> 2"
    by (metis real_sqrt_eq_iff sqrt2_less_2 less_irrefl)
  then show ?thesis using a b by simp
qed

subsection \<open>Sample-and-hold noise\<close>

lemma hold_loop_upt:
  assumes "0 < step"
    and "(a = 0 \<and> c = c0) \<or> (0 < a \<and> v = gen (c0 + (a - 1) div step) \<and> c = Suc (c0 + (a - 1) div step))"
  shows "hold_loop gen step [a..<b] (v, c) = map (\<lambda>i. gen (c0 + i div step)) [a..<b]"
  using assms
proof (induction "b - a" arbitrary: a v c)
  case 0
  then show ?case by simp
next
  case (Suc n)
  then have ab: "a < b" and n: "n = b - Suc a" by auto
  have upt: "[a..<b] = a # [Suc a..<b]" using ab by (simp add: upt_conv_Cons)
  define st' where "st' = (if a mod step = 0 then (gen c, Suc c) else (v, c))"
  have st: "st' = (gen (c0 + a div step), Suc (c0 + a div step))"
  proof (cases "a = 0")
    case True
    then show ?thesis using Suc.prems by (simp add: st'_def)
  next
    case False
    then obtain a' where a': "a = Suc a'" by (cases a) auto
    from False Suc.prems have v: "v = gen (c0 + a' div step)" and c: "c = Suc (c0 + a' div step)"
      by (auto simp: a')
    show ?thesis
      unfolding st'_def a' using v c by (simp add: div_Suc)
  qed
  have IH: "hold_loop gen step [Suc a..<b] (gen (c0 + a div step), Suc (c0 + a div step))
      = map (\<lambda>i. gen (c0 + i div step)) [Suc a..<b]"
    by (rule Suc.hyps(1) [OF n \<open>0 < step\<close>]) simp
  have "hold_loop gen step (a # [Suc a..<b]) (v, c) = fst st' # hold_loop gen step [Suc a..<b] st'"
    by (simp add: st'_def Let_def)
  then show ?case
    unfolding upt st using IH by simp
qed

lemma sh_loop_upt:
  assumes "0 < step"
    and "(a = 0 \<and> c = 0) \<or> (0 < a \<and> v = raw ! (step * ((a - 1) div step)) \<and> c = step - 1 - (a - 1) mod step)"
  shows "sh_loop raw step [a..<b] (v, c) = map (\<lambda>i. raw ! (step * (i div step))) [a..<b]"
  using assms
proof (induction "b - a" arbitrary: a v c)
  case 0
  then show ?case by simp
next
  case (Suc n)
  then have ab: "a < b" and n: "n = b - Suc a" by auto
  have upt: "[a..<b] = a # [Suc a..<b]" using ab by (simp add: upt_conv_Cons)
  define st' where "st' = (if c = 0 then (raw ! a, step) else (v, c))"
  have st: "st' = (raw ! (step * (a div step)), step - a mod step)"
  proof (cases "a = 0")
    case True
    then show ?thesis using Suc.prems by (simp add: st'_def)
  next
    case False
    then obtain a' where a': "a = Suc a'" by (cases a) auto
    from False Suc.prems have v: "v = raw ! (step * (a' div step))" and c: "c = step - 1 - a' mod step"
      by (auto simp: a')
    have lt: "a' mod step < step" using \<open>0 < step\<close> by simp
    show ?thesis
    proof (cases "Suc a' mod step = 0")
      case True
      then have m: "a' mod step = step - 1"
        using lt by (metis Suc_lessI diff_Suc_1 mod_Suc nat.distinct(1))
      have "step * (Suc a' div step) = Suc a'"
        using True by auto
      then show ?thesis
        unfolding st'_def a' using v c m True by simp
    next
      case False
      then have m: "Suc a' mod step = Suc (a' mod step)"
        by (simp add: mod_Suc split: if_splits)
      then have "Suc (a' mod step) < step"
        using \<open>0 < step\<close> by (metis mod_less_divisor)
      then show ?thesis
        unfolding st'_def a' using v c m False by (simp add: div_Suc)
    qed
  qed
  have n2: "n = b - Suc a" by (rule n)
  have IH: "sh_loop raw step [Suc a..<b] (raw ! (step * (a div step)), step - a mod step - 1)
      = map (\<lambda>i. raw ! (step * (i div step))) [Suc a..<b]"
    by (rule Suc.hyps(1) [OF n2 \<open>0 < step\<close>]) simp
  have "sh_loop raw step (a # [Suc a..<b]) (v, c) = fst st' # sh_loop raw step [Suc a..<b] (fst st', snd st' - 1)"
    by (simp add: st'_def Let_def)
  then show ?case
    unfolding upt st using IH by simp
qed

lemma makeNoiseBuffer_eq:
  assumes "0 < r"
  shows "makeNoiseBuffer sr (Fin r) gen = map (\<lambda>i. gen (Suc (i div noise_step sr r))) [0..<noise_len sr]"
proof -
  have pos: "0 < noise_step sr r" by (simp add: noise_step_def Let_def)
  have "hold_loop gen (noise_step sr r) [0..<noise_len sr] (gen 0, 1)
      = map (\<lambda>i. gen (1 + i div noise_step sr r)) [0..<noise_len sr]"
    by (rule hold_loop_upt [OF pos]) simp
  then show ?thesis using assms by (simp add: makeNoiseBuffer_def Let_def)
qed

lemma noiseTable_eq:
  "noiseTable sr key gen =
     map (\<lambda>i. gen (noise_step_core sr key * (i div noise_step_core sr key))) [0..<nat \<lfloor>sr\<rfloor>]"
proof -
  define step where "step = noise_step_core sr key"
  define len where "len = nat \<lfloor>sr\<rfloor>"
  define raw where "raw = map gen [0..<len]"
  have pos: "0 < step" by (simp add: step_def noise_step_core_def)
  have a: "sh_loop raw step [0..<len] (raw ! 0, 0) = map (\<lambda>i. raw ! (step * (i div step))) [0..<len]"
    by (rule sh_loop_upt [OF pos]) simp
  have b: "map (\<lambda>i. raw ! (step * (i div step))) [0..<len] = map (\<lambda>i. gen (step * (i div step))) [0..<len]"
  proof (rule map_cong [OF refl])
    fix i assume "i \<in> set [0..<len]"
    then have i: "i < len" by simp
    have "step * (i div step) \<le> i" by simp
    then have "step * (i div step) < len" using i by linarith
    then show "raw ! (step * (i div step)) = gen (step * (i div step))"
      by (simp add: raw_def)
  qed
  show ?thesis
    using a b by (simp add: noiseTable_def Let_def step_def len_def raw_def)
qed

lemma count_list_map_upt:
  "count_list (map f [0..<n]) y = card {i. i < n \<and> f i = y}"
proof (induction n)
  case 0
  then show ?case by simp
next
  case (Suc n)
  have fin: "finite {i. i < n \<and> f i = y}" by simp
  have split: "{i. i < Suc n \<and> f i = y} = (if f n = y then insert n {i. i < n \<and> f i = y} else {i. i < n \<and> f i = y})"
    by (auto simp: less_Suc_eq)
  show ?case
    using Suc fin by (simp add: split)
qed

lemma block_card:
  assumes "0 < step"
  shows "card {i. i < len \<and> i div step = k} = (if Suc k * step \<le> len then step else len - k * step)"
proof -
  have "{i. i < len \<and> i div step = k} = {k * step..<min (Suc k * step) len}"
  proof (rule set_eqI)
    fix i
    have "i div step = k \<longleftrightarrow> k \<le> i div step \<and> i div step < Suc k" by auto
    also have "\<dots> \<longleftrightarrow> k * step \<le> i \<and> i < Suc k * step"
      using assms by (simp only: less_eq_div_iff_mult_less_eq div_less_iff_less_mult)
    finally show "i \<in> {i. i < len \<and> i div step = k} \<longleftrightarrow> i \<in> {k * step..<min (Suc k * step) len}"
      by auto
  qed
  then show ?thesis by (auto simp: min_def)
qed

lemma noise_consts: "noise_len 44100 = 88200" "noise_step 44100 1000 = 44"
  by (simp_all add: noise_len_def noise_step_def toInt32_def Let_def)

lemma getNoiseBuffer_miss:
  "noiseBufCache s (noise_key r) = None \<Longrightarrow>
   fst (getNoiseBuffer r gen s) = noiseTable (sampleRate s) (noise_key r) gen"
  by (simp add: getNoiseBuffer_def Let_def)

lemma toInt32_int: "0 \<le> n \<Longrightarrow> n < 2 ^ 31 \<Longrightarrow> toInt32 (Fin (real_of_int n)) = n"
  by (simp add: toInt32_def Let_def)

text \<open>
  C7 (amended). For a rate \<open>r > 0\<close> both sample-and-hold buffers are cut into blocks of
  \<open>step\<close> samples that hold one random value each: sample \<open>i\<close> of \<open>makeNoiseBuffer\<close>
  holds draw number \<open>1 + i div step\<close>, sample \<open>i\<close> of \<open>_getNoiseBuffer\<close> (on a cache
  miss) holds raw sample \<open>step * (i div step)\<close>. Block \<open>k\<close> has exactly \<open>step\<close> samples when
  it fits into the buffer and the rest of the buffer otherwise, so the final run is
  shorter when \<open>step\<close> does not divide the buffer length. \<open>step\<close> is
  \<open>max(1, floor(sr / r))\<close> for \<open>r \<ge> 1\<close> in \<open>makeNoiseBuffer\<close> and
  \<open>max(1, floor(sr / floor(r)))\<close> for \<open>r \<ge> 20\<close> in \<open>_getNoiseBuffer\<close>.
\<close>

theorem noise_hold_runs:
  assumes "0 < r" and "noiseBufCache s (noise_key r) = None"
  shows "(let buf = makeNoiseBuffer sr (Fin r) gen; step = noise_step sr r; len = noise_len sr
          in length buf = len \<and> 0 < step \<and> (\<forall>i<len. buf ! i = gen (Suc (i div step))) \<and>
             count_list (makeNoiseBuffer sr (Fin r) (\<lambda>c. c)) (Suc k)
               = (if Suc k * step \<le> len then step else len - k * step)) \<and>
         (let buf = fst (getNoiseBuffer r gen s); step = noise_step_core (sampleRate s) (noise_key r);
              len = nat \<lfloor>sampleRate s\<rfloor>
          in length buf = len \<and> 0 < step \<and> (\<forall>i<len. buf ! i = gen (step * (i div step))) \<and>
             count_list (noiseTable (sampleRate s) (noise_key r) (\<lambda>c. c)) (step * k)
               = (if Suc k * step \<le> len then step else len - k * step)) \<and>
         (1 \<le> r \<and> 0 \<le> n \<and> n < 2 ^ 31 \<longrightarrow>
            noise_step (real_of_int n) r = nat (max 1 \<lfloor>real_of_int n / r\<rfloor>)) \<and>
         (20 \<le> r \<longrightarrow>
            noise_step_core (sampleRate s) (noise_key r)
              = nat (max 1 \<lfloor>sampleRate s / real_of_int \<lfloor>r\<rfloor>\<rfloor>))"
proof -
  define step where "step = noise_step sr r"
  define len where "len = noise_len sr"
  define step' where "step' = noise_step_core (sampleRate s) (noise_key r)"
  define len' where "len' = nat \<lfloor>sampleRate s\<rfloor>"
  have pos: "0 < step" by (simp add: step_def noise_step_def Let_def)
  have pos': "0 < step'" by (simp add: step'_def noise_step_core_def)
  have e: "makeNoiseBuffer sr (Fin r) g = map (\<lambda>i. g (Suc (i div step))) [0..<len]" for g :: "nat \<Rightarrow> 'b"
    unfolding step_def len_def by (rule makeNoiseBuffer_eq [OF assms(1)])
  have a1: "length (makeNoiseBuffer sr (Fin r) gen) = len" by (simp add: e)
  have a2: "\<forall>i<len. makeNoiseBuffer sr (Fin r) gen ! i = gen (Suc (i div step))"
    by (simp add: e)
  have "count_list (makeNoiseBuffer sr (Fin r) (\<lambda>c. c)) (Suc k) = card {i. i < len \<and> i div step = k}"
    by (simp add: e count_list_map_upt)
  then have a3: "count_list (makeNoiseBuffer sr (Fin r) (\<lambda>c. c)) (Suc k)
      = (if Suc k * step \<le> len then step else len - k * step)"
    by (simp only: block_card [OF pos])
  have e': "noiseTable (sampleRate s) (noise_key r) g = map (\<lambda>i. g (step' * (i div step'))) [0..<len']"
    for g :: "nat \<Rightarrow> 'b"
    unfolding step'_def len'_def by (rule noiseTable_eq)
  have c: "fst (getNoiseBuffer r gen s) = noiseTable (sampleRate s) (noise_key r) gen"
    by (rule getNoiseBuffer_miss [OF assms(2)])
  have b1: "length (fst (getNoiseBuffer r gen s)) = len'" by (simp add: c e')
  have b2: "\<forall>i<len'. fst (getNoiseBuffer r gen s) ! i = gen (step' * (i div step'))"
    by (simp add: c e')
  have "count_list (noiseTable (sampleRate s) (noise_key r) (\<lambda>c. c)) (step' * k)
      = card {i. i < len' \<and> step' * (i div step') = step' * k}"
    by (simp add: e' count_list_map_upt)
  also have "\<dots> = card {i. i < len' \<and> i div step' = k}"
    using pos' by simp
  finally have b3: "count_list (noiseTable (sampleRate s) (noise_key r) (\<lambda>c. c)) (step' * k)
      = (if Suc k * step' \<le> len' then step' else len' - k * step')"
    by (simp only: block_card [OF pos'])
  have c1: "1 \<le> r \<and> 0 \<le> n \<and> n < 2 ^ 31 \<longrightarrow>
      noise_step (real_of_int n) r = nat (max 1 \<lfloor>real_of_int n / r\<rfloor>)"
    by (simp add: noise_step_def Let_def toInt32_int)
  have c2: "20 \<le> r \<longrightarrow> step' = nat (max 1 \<lfloor>sampleRate s / real_of_int \<lfloor>r\<rfloor>\<rfloor>)"
  proof
    assume "20 \<le> r"
    then have "20 \<le> \<lfloor>r\<rfloor>" by linarith
    then show "step' = nat (max 1 \<lfloor>sampleRate s / real_of_int \<lfloor>r\<rfloor>\<rfloor>)"
      by (simp add: step'_def noise_step_core_def noise_key_def max_def)
  qed
  show ?thesis
    unfolding Let_def step_def [symmetric] len_def [symmetric] step'_def [symmetric] len'_def [symmetric]
    using a1 a2 a3 b1 b2 b3 c1 c2 pos pos' by blast
qed

theorem noise_hold_runs_witness:
  "count_list (makeNoiseBuffer 44100 (Fin 1000) (\<lambda>c. c)) 1 = 44 \<and>
   count_list (makeNoiseBuffer 44100 (Fin 1000) (\<lambda>c. c)) 2005 = 24 \<and>
   length (makeNoiseBuffer 44100 (Fin 1000) (\<lambda>c. real c)) = 88200"
proof -
  have pos: "(0::real) < 1000" by simp
  have miss: "noiseBufCache (new_core 44100 False True) (noise_key 1000) = None"
    by (simp add: new_core_def)
  have k: "noise_len 44100 = 88200" "noise_step 44100 1000 = 44"
    by (rule noise_consts)+
  have "count_list (makeNoiseBuffer 44100 (Fin 1000) (\<lambda>c. c)) (Suc 0) = 44"
    using noise_hold_runs [OF pos miss, of 44100 "\<lambda>c. c" 0]
    unfolding Let_def k by simp
  moreover have "count_list (makeNoiseBuffer 44100 (Fin 1000) (\<lambda>c. c)) (Suc 2004) = 24"
    using noise_hold_runs [OF pos miss, of 44100 "\<lambda>c. c" 2004]
    unfolding Let_def k by simp
  moreover have "length (makeNoiseBuffer 44100 (Fin 1000) (\<lambda>c. real c)) = 88200"
    using noise_hold_runs [OF pos miss, of 44100 "\<lambda>c. real c" 0]
    unfolding Let_def k by simp
  ultimately show ?thesis by simp
qed

text \<open>
  C7 as stated fails at the end of the buffer: at 44100 Hz and rate 1000 the hold length
  is 44 samples, and the last value drawn (draw 2005) fills only the 24 samples left.
\<close>

theorem noise_final_run_counterexample:
  "count_list (makeNoiseBuffer 44100 (Fin 1000) (\<lambda>c. c)) 2005 = 24 \<and> nat \<lfloor>(44100::real) / 1000\<rfloor> = 44"
proof -
  have "count_list (makeNoiseBuffer 44100 (Fin 1000) (\<lambda>c. c)) 2005
      = card {i. i < 88200 \<and> i div 44 = (2004::nat)}"
    by (simp add: makeNoiseBuffer_eq count_list_map_upt noise_consts)
  also have "\<dots> = 24"
    using block_card [of 44 88200 2004] by simp
  finally show ?thesis by simp
qed

subsection \<open>The bit-depth curve\<close>

lemma floor_step_up: "a + 1 \<le> b \<Longrightarrow> \<lfloor>a::real\<rfloor> < \<lfloor>b\<rfloor>"
  by linarith

lemma floor_step_le: "b \<le> a + 1 \<Longrightarrow> \<lfloor>b::real\<rfloor> \<le> \<lfloor>a\<rfloor> + 1"
  by linarith

lemma clamp_bits_range: "2 \<le> clamp_bits bits \<and> clamp_bits bits \<le> 16"
  by (simp add: clamp_bits_def)

lemma bit_quant_mono:
  assumes "1 < L" "x \<le> y"
  shows "bit_quant L x \<le> bit_quant L y"
proof -
  define A where "A = real_of_int (js_round ((x * 0.5 + 0.5) * (L - 1))) / (L - 1)"
  define B where "B = real_of_int (js_round ((y * 0.5 + 0.5) * (L - 1))) / (L - 1)"
  have "(x * 0.5 + 0.5) * (L - 1) \<le> (y * 0.5 + 0.5) * (L - 1)"
    using assms by (simp add: mult_right_mono)
  then have "js_round ((x * 0.5 + 0.5) * (L - 1)) \<le> js_round ((y * 0.5 + 0.5) * (L - 1))"
    unfolding js_round_def by (intro floor_mono) simp
  then have "A \<le> B"
    unfolding A_def B_def using assms by (simp add: divide_right_mono)
  then have "A * 2 - 1 \<le> B * 2 - 1" by simp
  then show ?thesis unfolding bit_quant_def Let_def A_def B_def .
qed

lemma bit_quant_idem:
  assumes "1 < L"
  shows "bit_quant L (bit_quant L x) = bit_quant L x"
proof -
  define j where "j = js_round ((x * 0.5 + 0.5) * (L - 1))"
  have q: "bit_quant L x = real_of_int j / (L - 1) * 2 - 1"
    by (simp add: bit_quant_def Let_def j_def)
  have "((real_of_int j / (L - 1) * 2 - 1) * 0.5 + 0.5) * (L - 1) = real_of_int j"
    using assms by (simp add: field_simps)
  then have "js_round (((bit_quant L x) * 0.5 + 0.5) * (L - 1)) = j"
    unfolding q js_round_def by simp
  then show ?thesis
    unfolding q by (simp add: bit_quant_def Let_def)
qed

lemma bitDepthCurve_length: "length (bitDepthCurve b) = 2048"
  by (simp add: bitDepthCurve_def Let_def)

lemma bitDepthCurve_nth:
  "i < 2048 \<Longrightarrow> bitDepthCurve b ! i = bit_quant (2 ^ nat b) (real i / 2047 * 2 - 1)"
  by (simp add: bitDepthCurve_def Let_def del: upt_Suc)

lemma bitDepthCurve_nth_level:
  assumes "i < 2048"
  shows "bitDepthCurve b ! i =
    real_of_int \<lfloor>real i * (2 ^ nat b - 1) / 2047 + 1 / 2\<rfloor> / (2 ^ nat b - 1) * 2 - 1"
proof -
  define x where "x = real i / 2047 * 2 - 1"
  define L :: real where "L = 2 ^ nat b"
  have e: "(x * 0.5 + 0.5) * (L - 1) = real i * (L - 1) / 2047"
    by (simp add: x_def field_simps)
  have "bit_quant L x = real_of_int \<lfloor>(x * 0.5 + 0.5) * (L - 1) + 1 / 2\<rfloor> / (L - 1) * 2 - 1"
    unfolding bit_quant_def js_round_def Let_def by (rule refl)
  also have "\<dots> = real_of_int \<lfloor>real i * (L - 1) / 2047 + 1 / 2\<rfloor> / (L - 1) * 2 - 1"
    by (simp only: e)
  finally show ?thesis
    using assms by (simp only: bitDepthCurve_nth x_def L_def)
qed

lemma bitDepthCurve_mono:
  assumes "2 \<le> b" "i \<le> j" "j < 2048"
  shows "bitDepthCurve b ! i \<le> bitDepthCurve b ! j"
proof -
  have "(2::real) ^ 1 < 2 ^ nat b"
    using assms(1) by (intro power_strict_increasing) auto
  then have L: "(1::real) < 2 ^ nat b" by simp
  have "real i / 2047 * 2 - 1 \<le> real j / 2047 * 2 - 1"
    using assms(2) by (simp add: divide_right_mono)
  then show ?thesis
    using assms L by (simp add: bitDepthCurve_nth bit_quant_mono)
qed

lemma nat_ivt:
  fixes f :: "nat \<Rightarrow> int"
  assumes "f 0 = 0"
    and "\<And>i. i < n \<Longrightarrow> f (Suc i) \<le> f i + 1"
    and "\<And>i. i < n \<Longrightarrow> f i \<le> f (Suc i)"
  shows "f ` {0..n} = {0..f n}"
  using assms
proof (induction n)
  case 0
  then show ?case by simp
next
  case (Suc n)
  have IH: "f ` {0..n} = {0..f n}"
    using Suc by simp
  have "f 0 \<in> f ` {0..n}" by simp
  then have nonneg: "0 \<le> f n" using IH Suc.prems(1) by auto
  have up: "f (Suc n) \<le> f n + 1" and dn: "f n \<le> f (Suc n)"
    using Suc.prems by simp_all
  have "f ` {0..Suc n} = insert (f (Suc n)) (f ` {0..n})"
    by (simp add: atLeast0_atMost_Suc)
  also have "\<dots> = insert (f (Suc n)) {0..f n}" by (simp add: IH)
  also have "\<dots> = {0..f (Suc n)}"
    using up dn nonneg by auto
  finally show ?case .
qed

lemma level_image_small:
  fixes m :: real
  assumes "0 < m" "m \<le> 2047" "m = real_of_int M"
  shows "(\<lambda>i. \<lfloor>real i * m / 2047 + 1 / 2\<rfloor>) ` {0..2047} = {0..M}"
proof -
  define f where "f = (\<lambda>i::nat. \<lfloor>real i * m / 2047 + 1 / 2\<rfloor>)"
  have f0: "f 0 = 0" by (simp add: f_def)
  have up: "f (Suc i) \<le> f i + 1" for i
  proof -
    have "real (Suc i) * m / 2047 + 1 / 2 \<le> (real i * m / 2047 + 1 / 2) + 1"
      using assms by (simp add: field_simps)
    then show ?thesis unfolding f_def by (rule floor_step_le)
  qed
  have dn: "f i \<le> f (Suc i)" for i
  proof -
    have "real i * m / 2047 + 1 / 2 \<le> real (Suc i) * m / 2047 + 1 / 2"
      using assms by (simp add: field_simps)
    then show ?thesis unfolding f_def by (rule floor_mono)
  qed
  have "f 2047 = \<lfloor>real_of_int M + 1 / 2\<rfloor>"
    using assms by (simp add: f_def)
  also have "\<dots> = M" by linarith
  finally have fn: "f 2047 = M" .
  have "f ` {0..2047} = {0..f 2047}"
    by (rule nat_ivt [OF f0 up dn])
  then have "f ` {0..2047} = {0..M}" by (simp only: fn)
  then show ?thesis unfolding f_def .
qed

lemma level_inj_large:
  fixes m :: real
  assumes "2047 \<le> m"
  shows "inj_on (\<lambda>i::nat. \<lfloor>real i * m / 2047 + 1 / 2\<rfloor>) A"
proof -
  define f where "f = (\<lambda>i::nat. \<lfloor>real i * m / 2047 + 1 / 2\<rfloor>)"
  have step: "f i < f (Suc i)" for i
  proof -
    have "(real i * m / 2047 + 1 / 2) + 1 \<le> real (Suc i) * m / 2047 + 1 / 2"
      using assms by (simp add: field_simps)
    then show ?thesis unfolding f_def by (rule floor_step_up)
  qed
  have "strict_mono f"
    by (rule strict_mono_Suc_iff [THEN iffD2]) (simp add: step)
  then have "inj f" by (rule strict_mono_imp_inj_on)
  then show ?thesis unfolding f_def by (rule inj_on_subset) simp
qed

lemma bitDepthCurve_set:
  "set (bitDepthCurve b) =
     (\<lambda>j. real_of_int j / (2 ^ nat b - 1) * 2 - 1) ` (\<lambda>i. \<lfloor>real i * (2 ^ nat b - 1) / 2047 + 1 / 2\<rfloor>) ` {0..2047}"
proof -
  have "set (bitDepthCurve b) = (\<lambda>i. bitDepthCurve b ! i) ` {0..<2048}"
    using bitDepthCurve_length [of b] by (metis atLeast0LessThan nth_image take_all order_refl)
  also have "\<dots> = (\<lambda>i. real_of_int \<lfloor>real i * (2 ^ nat b - 1) / 2047 + 1 / 2\<rfloor> / (2 ^ nat b - 1) * 2 - 1) ` {0..<2048}"
    by (rule image_cong) (simp_all add: bitDepthCurve_nth_level)
  also have "{0..<2048::nat} = {0..2047}" by auto
  finally show ?thesis by (simp add: image_image)
qed

lemma bitDepthCurve_card:
  assumes "2 \<le> b" "b \<le> 16"
  shows "card (set (bitDepthCurve b)) = (if b \<le> 11 then 2 ^ nat b else 2048)"
proof -
  define m :: real where "m = 2 ^ nat b - 1"
  have "(2::real) ^ 1 < 2 ^ nat b"
    using assms(1) by (intro power_strict_increasing) auto
  then have mpos: "0 < m" by (simp add: m_def)
  have inj: "inj_on (\<lambda>j. real_of_int j / m * 2 - 1) S" for S
    using mpos by (auto simp: inj_on_def)
  have card1: "card (set (bitDepthCurve b)) = card ((\<lambda>i. \<lfloor>real i * m / 2047 + 1 / 2\<rfloor>) ` {0..2047::nat})"
    unfolding bitDepthCurve_set m_def [symmetric] by (rule card_image [OF inj])
  show ?thesis
  proof (cases "b \<le> 11")
    case True
    then have "(2::real) ^ nat b \<le> 2 ^ 11"
      by (intro power_increasing) auto
    then have le: "m \<le> 2047" by (simp add: m_def)
    have M: "m = real_of_int (2 ^ nat b - 1)" by (simp add: m_def)
    have "card ((\<lambda>i. \<lfloor>real i * m / 2047 + 1 / 2\<rfloor>) ` {0..2047::nat}) = card {0..(2::int) ^ nat b - 1}"
      using level_image_small [OF mpos le M] by simp
    also have "\<dots> = 2 ^ nat b" by (simp add: nat_power_eq)
    finally show ?thesis using True card1 by simp
  next
    case False
    then have "(2::real) ^ 12 \<le> 2 ^ nat b"
      by (intro power_increasing) auto
    then have ge: "2047 \<le> m" by (simp add: m_def)
    have "card ((\<lambda>i. \<lfloor>real i * m / 2047 + 1 / 2\<rfloor>) ` {0..2047::nat}) = card {0..2047::nat}"
      by (rule card_image [OF level_inj_large [OF ge]])
    then show ?thesis using False card1 by simp
  qed
qed

lemma getBitDepthCurve_miss:
  "bitCurveCache s (clamp_bits bits) = None \<Longrightarrow>
   fst (getBitDepthCurve bits s) = bitDepthCurve (clamp_bits bits)"
  by (simp add: getBitDepthCurve_def Let_def)

lemma pow_bits_gt1: "2 \<le> b \<Longrightarrow> (1::real) < 2 ^ nat b"
proof -
  assume "2 \<le> b"
  then have "(2::real) ^ 1 < 2 ^ nat b"
    by (intro power_strict_increasing) auto
  then show ?thesis by simp
qed

text \<open>
  C5 (amended). For every requested depth, with \<open>b\<close> the depth clamped to [2, 16], the
  table \<open>_getBitDepthCurve\<close> generates has 2048 entries and is non-decreasing; it takes
  exactly \<open>2^b\<close> distinct values when \<open>b \<le> 11\<close> and exactly 2048 distinct values when
  \<open>b \<ge> 12\<close>; the quantisation step that generates the entries is idempotent, and every
  entry of the table is a fixed point of it.
\<close>

theorem bit_depth_curve_properties:
  assumes "bitCurveCache s (clamp_bits bits) = None"
  shows "(let b = clamp_bits bits; curve = fst (getBitDepthCurve bits s)
          in 2 \<le> b \<and> b \<le> 16 \<and> length curve = 2048 \<and>
             (\<forall>i j. i \<le> j \<and> j < 2048 \<longrightarrow> curve ! i \<le> curve ! j) \<and>
             card (set curve) = (if b \<le> 11 then 2 ^ nat b else 2048) \<and>
             (\<forall>x. bit_quant (2 ^ nat b) (bit_quant (2 ^ nat b) x) = bit_quant (2 ^ nat b) x) \<and>
             (\<forall>i<2048. bit_quant (2 ^ nat b) (curve ! i) = curve ! i))"
proof -
  define b where "b = clamp_bits bits"
  have r: "2 \<le> b" "b \<le> 16" using clamp_bits_range [of bits] by (simp_all add: b_def)
  have L: "(1::real) < 2 ^ nat b" by (rule pow_bits_gt1 [OF r(1)])
  have c: "fst (getBitDepthCurve bits s) = bitDepthCurve b"
    unfolding b_def by (rule getBitDepthCurve_miss [OF assms])
  have mono: "\<forall>i j. i \<le> j \<and> j < 2048 \<longrightarrow> bitDepthCurve b ! i \<le> bitDepthCurve b ! j"
    using bitDepthCurve_mono [OF r(1)] by blast
  have idem: "\<forall>x. bit_quant (2 ^ nat b) (bit_quant (2 ^ nat b) x) = bit_quant (2 ^ nat b) x"
    using bit_quant_idem [OF L] by blast
  have fixed: "\<forall>i<2048. bit_quant (2 ^ nat b) (bitDepthCurve b ! i) = bitDepthCurve b ! i"
    using bit_quant_idem [OF L] by (simp add: bitDepthCurve_nth)
  show ?thesis
    unfolding Let_def c b_def [symmetric]
    using r mono idem fixed bitDepthCurve_card [OF r] bitDepthCurve_length [of b]
    by blast
qed

theorem bit_depth_curve_properties_witness:
  "card (set (fst (getBitDepthCurve (Fin 8) (new_core 44100 False True)))) = 256 \<and>
   length (fst (getBitDepthCurve (Fin 8) (new_core 44100 False True))) = 2048 \<and>
   card (set (fst (getBitDepthCurve (Fin 12) (new_core 44100 False True)))) = 2048"
proof -
  have b8: "clamp_bits (Fin 8) = 8" and b12: "clamp_bits (Fin 12) = 12"
    by (simp_all add: clamp_bits_def toInt32_def Let_def)
  have m8: "bitCurveCache (new_core 44100 False True) (clamp_bits (Fin 8)) = None"
    and m12: "bitCurveCache (new_core 44100 False True) (clamp_bits (Fin 12)) = None"
    by (simp_all add: new_core_def)
  show ?thesis
    using bit_depth_curve_properties [OF m8] bit_depth_curve_properties [OF m12]
    unfolding Let_def b8 b12 by simp
qed

text \<open>
  C5 as stated fails: at depth 12 (the default) a table of 2048 entries cannot take
  \<open>2^12\<close> distinct values.
\<close>

theorem bit_depth_levels_counterexample: "card (set (bitDepthCurve (clamp_bits (Fin 12)))) \<noteq> 2 ^ 12"
proof -
  have "card (set (bitDepthCurve (clamp_bits (Fin 12)))) \<le> length (bitDepthCurve (clamp_bits (Fin 12)))"
    by (rule card_length)
  then show ?thesis by (simp add: bitDepthCurve_length)
qed

section \<open>Properties of the engine\<close>

subsection \<open>The note-off time\<close>

lemma playNote_ok:
  assumes "toneBank e = Some tones" and "tones (p_toneId params) = Some tone"
    and "buses e (if p_busKey params = [] then ''master'' else p_busKey params) = Some b"
  shows "playNote params now e =
     Inr (start_voice tone params (if p_busKey params = [] then ''master'' else p_busKey params)
           (case p_t0 params of Some t \<Rightarrow> t | None \<Rightarrow> now) e)"
  using assms by (simp add: playNote_def Let_def)

lemma playNote_Inr_iff:
  "(\<exists>r. playNote params now e = Inr r) \<longleftrightarrow>
     (\<exists>tones tone b. toneBank e = Some tones \<and> tones (p_toneId params) = Some tone \<and>
        buses e (if p_busKey params = [] then ''master'' else p_busKey params) = Some b)"
  by (auto simp: playNote_def Let_def split: option.splits)

lemma start_voice_info:
  "fst (start_voice tone params busKey t0 e) =
     \<lparr>voiceId = voiceSerial e, n_t0 = t0,
      tOff = t0 + max 0.001 (numOr (p_dSec params) 0.25),
      tR = t0 + max 0.001 (numOr (p_dSec params) 0.25)
             + clamp (Fin (numOr (release (case tone_env tone of None \<Rightarrow> default_env | Some x \<Rightarrow> x)) 0.06)) 0.001 6,
      n_toneId = p_toneId params, n_busKey = busKey\<rparr>"
  by (simp add: start_voice_def note_envelope_def Let_def split: option.splits)

text \<open>
  C10. Whenever the tone and the bus of a \<open>playNote\<close> call exist, the call returns, and
  whatever the requested duration is (missing, \<open>NaN\<close>, infinite, zero, negative), the
  effective duration is \<open>max(0.001, dSec)\<close> for a finite \<open>dSec\<close> and 0.25 otherwise, so
  the returned off-time is at least one millisecond after the onset, and strictly after
  it.
\<close>

theorem note_off_after_onset:
  assumes "toneBank e = Some tones" and "tones (p_toneId params) = Some tone"
    and "buses e (if p_busKey params = [] then ''master'' else p_busKey params) = Some b"
  shows "\<exists>info e'. playNote params now e = Inr (info, e') \<and>
           n_t0 info = (case p_t0 params of Some t \<Rightarrow> t | None \<Rightarrow> now) \<and>
           tOff info = n_t0 info + (case p_dSec params of Fin d \<Rightarrow> max 0.001 d | _ \<Rightarrow> 0.25) \<and>
           n_t0 info + 0.001 \<le> tOff info \<and> n_t0 info < tOff info"
proof -
  define t0 where "t0 = (case p_t0 params of Some t \<Rightarrow> t | None \<Rightarrow> now)"
  define bk where "bk = (if p_busKey params = [] then ''master'' else p_busKey params)"
  define r where "r = start_voice tone params bk t0 e"
  have ret: "playNote params now e = Inr (fst r, snd r)"
    using playNote_ok [OF assms] by (simp add: r_def bk_def t0_def)
  have d: "max 0.001 (numOr (p_dSec params) 0.25)
      = (case p_dSec params of Fin d \<Rightarrow> max 0.001 d | _ \<Rightarrow> 0.25)"
    by (simp add: numOr_def split: jsnum.splits)
  have t: "n_t0 (fst r) = t0" and off: "tOff (fst r) = t0 + max 0.001 (numOr (p_dSec params) 0.25)"
    by (simp_all add: r_def start_voice_info)
  have main: "n_t0 (fst r) = t0 \<and>
        tOff (fst r) = n_t0 (fst r) + max 0.001 (numOr (p_dSec params) 0.25) \<and>
        n_t0 (fst r) + 0.001 \<le> tOff (fst r) \<and> n_t0 (fst r) < tOff (fst r)"
    using t off by (simp add: less_max_iff_disj)
  show ?thesis
    using ret main [unfolded d] unfolding t0_def by blast
qed

theorem note_off_after_onset_witness:
  "map_sum id (\<lambda>r. tOff (fst r))
     (playNote \<lparr>p_toneId = ''lead'', p_v = NaN, p_t0 = Some 1, p_dSec = NaN, p_busKey = []\<rparr> 0 demo_engine)
   = Inr (5 / 4) \<and>
   map_sum id (\<lambda>r. tOff (fst r))
     (playNote \<lparr>p_toneId = ''lead'', p_v = NaN, p_t0 = Some 1, p_dSec = Fin (- 3), p_busKey = []\<rparr> 0 demo_engine)
   = Inr (1001 / 1000)"
proof -
  have bank: "toneBank demo_engine = Some [''lead'' \<mapsto> lead_tone]"
    by (simp add: demo_engine_def new_engine_def)
  have bus: "buses demo_engine ''master'' = Some \<lparr>bus_gain = 1.0, bus_pan = Some 0\<rparr>"
    by (simp add: demo_engine_def new_engine_def)
  obtain i1 e1 where a: "playNote \<lparr>p_toneId = ''lead'', p_v = NaN, p_t0 = Some 1, p_dSec = NaN, p_busKey = []\<rparr> 0 demo_engine = Inr (i1, e1)"
      and a': "tOff i1 = 5 / 4"
    using note_off_after_onset [of demo_engine "[''lead'' \<mapsto> lead_tone]"
        "\<lparr>p_toneId = ''lead'', p_v = NaN, p_t0 = Some 1, p_dSec = NaN, p_busKey = []\<rparr>" lead_tone
        "\<lparr>bus_gain = 1.0, bus_pan = Some 0\<rparr>" 0]
    using bank bus by auto
  obtain i2 e2 where b: "playNote \<lparr>p_toneId = ''lead'', p_v = NaN, p_t0 = Some 1, p_dSec = Fin (- 3), p_busKey = []\<rparr> 0 demo_engine = Inr (i2, e2)"
      and b': "tOff i2 = 1001 / 1000"
    using note_off_after_onset [of demo_engine "[''lead'' \<mapsto> lead_tone]"
        "\<lparr>p_toneId = ''lead'', p_v = NaN, p_t0 = Some 1, p_dSec = Fin (- 3), p_busKey = []\<rparr>" lead_tone
        "\<lparr>bus_gain = 1.0, bus_pan = Some 0\<rparr>" 0]
    using bank bus by auto
  show ?thesis by (simp add: a a' b b')
qed

subsection \<open>Unknown tones and buses\<close>

lemma set_queue_schedule: "set (queue (schedule t a e)) = insert (t, a) (set (queue e))"
proof -
  define i where "i = sched_pos (queue e) t (length (queue e))"
  have "set (take i (queue e)) \<union> set (drop i (queue e)) = set (queue e)"
    by (metis append_take_drop_id set_append)
  then have "set (take i (queue e) @ [(t, a)] @ drop i (queue e)) = insert (t, a) (set (queue e))"
    by auto
  then show ?thesis by (simp add: schedule_def Let_def i_def)
qed

lemma fold_phrase_queue_mono:
  "set (queue e) \<subseteq> set (queue (fold (\<lambda>ev e. case f ev of None \<Rightarrow> e
        | Some (t, params) \<Rightarrow> schedule t (PhraseNote params) e) evs e))"
proof (induction evs arbitrary: e)
  case Nil
  then show ?case by simp
next
  case (Cons ev evs)
  show ?case
  proof (cases "f ev")
    case None
    then show ?thesis using Cons [of e] by simp
  next
    case (Some tp)
    obtain t params where tp: "tp = (t, params)" by (cases tp)
    have "set (queue e) \<subseteq> set (queue (schedule t (PhraseNote params) e))"
      by (auto simp: set_queue_schedule)
    also have "\<dots> \<subseteq> set (queue (fold (\<lambda>ev e. case f ev of None \<Rightarrow> e
        | Some (t, params) \<Rightarrow> schedule t (PhraseNote params) e) evs (schedule t (PhraseNote params) e)))"
      by (rule Cons)
    finally show ?thesis using Some tp by simp
  qed
qed

lemma fold_phrase_queue_mem:
  assumes "ev \<in> set evs" and "f ev = Some (t, params)"
  shows "(t, PhraseNote params) \<in> set (queue (fold (\<lambda>ev e. case f ev of None \<Rightarrow> e
        | Some (t, params) \<Rightarrow> schedule t (PhraseNote params) e) evs e))"
  using assms
proof (induction evs arbitrary: e)
  case Nil
  then show ?case by simp
next
  case (Cons x evs)
  define step where "step = (\<lambda>ev e. case f ev of None \<Rightarrow> e
        | Some (t, params) \<Rightarrow> schedule t (PhraseNote params) e)"
  show ?case
  proof (cases "x = ev")
    case True
    have "(t, PhraseNote params) \<in> set (queue (step x e))"
      using True Cons.prems(2) by (simp add: step_def set_queue_schedule)
    moreover have "set (queue (step x e)) \<subseteq> set (queue (fold step evs (step x e)))"
      unfolding step_def by (rule fold_phrase_queue_mono)
    ultimately show ?thesis unfolding step_def by auto
  next
    case False
    then have "ev \<in> set evs" using Cons.prems(1) by simp
    then have "(t, PhraseNote params) \<in> set (queue (fold step evs (step x e)))"
      unfolding step_def using Cons.IH Cons.prems(2) by blast
    then show ?thesis unfolding step_def by simp
  qed
qed

lemma errorLog_run_action_prefix:
  "\<exists>ys. errorLog (run_action a now e) = errorLog e @ ys"
  by (cases a)
    (auto simp: run_action_def run_note_def playNote_def start_voice_def schedule_def Let_def
      split: option.splits sum.splits)

lemma errorLog_pump_loop_prefix:
  "\<exists>ys. errorLog (pump_loop tMax now e) = errorLog e @ ys"
proof (induction tMax now e rule: pump_loop.induct)
  case (1 tMax now e)
  show ?case
  proof (cases "queue e")
    case Nil
    then show ?thesis by (simp add: pump_loop.simps [of tMax now e])
  next
    case (Cons it rest)
    show ?thesis
    proof (cases "fst it \<le> tMax")
      case True
      obtain ys where a: "errorLog (run_action (snd it) now (e\<lparr>queue := rest\<rparr>)) = errorLog e @ ys"
        using errorLog_run_action_prefix [of "snd it" now "e\<lparr>queue := rest\<rparr>"] by auto
      obtain zs where b: "errorLog (pump_loop tMax now (run_action (snd it) now (e\<lparr>queue := rest\<rparr>)))
          = errorLog (run_action (snd it) now (e\<lparr>queue := rest\<rparr>)) @ zs"
        using "1.IH" [OF Cons True] by auto
      show ?thesis
        using Cons True a b by (simp add: pump_loop.simps [of tMax now e])
    next
      case False
      then show ?thesis using Cons by (simp add: pump_loop.simps [of tMax now e])
    qed
  qed
qed

lemma pump_loop_head_error:
  assumes "queue e = (t, PhraseNote params) # rest" and "t \<le> tMax"
    and "playNote params now (e\<lparr>queue := rest\<rparr>) = Inl msg"
  shows "pump_loop tMax now e = pump_loop tMax now (e\<lparr>queue := rest, errorLog := errorLog e @ [msg]\<rparr>)"
proof -
  have "pump_loop tMax now e = pump_loop tMax now (run_action (PhraseNote params) now (e\<lparr>queue := rest\<rparr>))"
    by (subst pump_loop.simps) (simp add: assms)
  moreover have "run_action (PhraseNote params) now (e\<lparr>queue := rest\<rparr>)
      = e\<lparr>queue := rest, errorLog := errorLog e @ [msg]\<rparr>"
    by (simp add: run_action_def run_note_def assms)
  ultimately show ?thesis by simp
qed

lemma phrase_event_note_tone:
  assumes "ev_toneId ev \<noteq> []"
  shows "\<exists>t ps. phrase_event_note tStart beatSec bk td ev = Some (t, ps) \<and> p_toneId ps = ev_toneId ev"
  using assms by (simp add: phrase_event_note_def Let_def)

text \<open>
  C9 (amended). \<open>playNote\<close> raises a descriptive error when no bank is loaded, when the
  tone id is not in the bank, and when no bus exists under the bus key. \<open>playPhrase\<close>
  itself does not look at the bank or the buses: it queues every event that names a tone
  and returns; when the pump reaches such a note and \<open>playNote\<close> raises, the pump
  writes the error to the console log and goes on with the rest of the queue.
\<close>

theorem unknown_ids_raise:
  "(toneBank e = None \<longrightarrow> playNote params now e = Inl ''toneBank not loaded'') \<and>
   (\<forall>tones. toneBank e = Some tones \<and> tones (p_toneId params) = None \<longrightarrow>
      playNote params now e = Inl (''Unknown toneId: '' @ p_toneId params)) \<and>
   (\<forall>tones tone. toneBank e = Some tones \<and> tones (p_toneId params) = Some tone \<and>
      buses e (if p_busKey params = [] then ''master'' else p_busKey params) = None \<longrightarrow>
      playNote params now e
        = Inl (''Unknown bus: '' @ (if p_busKey params = [] then ''master'' else p_busKey params))) \<and>
   (\<forall>ev. ev \<in> set (ph_events ph) \<and> ev_toneId ev \<noteq> [] \<longrightarrow>
      (\<exists>t ps. p_toneId ps = ev_toneId ev \<and>
         (t, PhraseNote ps) \<in> set (queue (snd (playPhrase ph opts now e))))) \<and>
   (\<forall>t rest msg tMax. queue e = (t, PhraseNote params) # rest \<and> t \<le> tMax \<and>
      playNote params now (e\<lparr>queue := rest\<rparr>) = Inl msg \<longrightarrow>
      pump_loop tMax now e = pump_loop tMax now (e\<lparr>queue := rest, errorLog := errorLog e @ [msg]\<rparr>) \<and>
      msg \<in> set (errorLog (pump_loop tMax now e)))"
proof (intro conjI allI impI)
  assume "toneBank e = None"
  then show "playNote params now e = Inl ''toneBank not loaded''"
    by (simp add: playNote_def)
next
  fix tones
  assume "toneBank e = Some tones \<and> tones (p_toneId params) = None"
  then show "playNote params now e = Inl (''Unknown toneId: '' @ p_toneId params)"
    by (simp add: playNote_def)
next
  fix tones tone
  assume "toneBank e = Some tones \<and> tones (p_toneId params) = Some tone \<and>
      buses e (if p_busKey params = [] then ''master'' else p_busKey params) = None"
  then show "playNote params now e
        = Inl (''Unknown bus: '' @ (if p_busKey params = [] then ''master'' else p_busKey params))"
    by (simp add: playNote_def Let_def)
next
  fix ev
  assume a: "ev \<in> set (ph_events ph) \<and> ev_toneId ev \<noteq> []"
  define tStart where "tStart = (case po_tStart opts of Some t \<Rightarrow> t | None \<Rightarrow> now)"
  define beatSec where "beatSec = 60 / max 1 (case po_tempo opts of Some x \<Rightarrow> x
                   | None \<Rightarrow> (case ph_tempo ph of Some x \<Rightarrow> x | None \<Rightarrow> 120))"
  define bk where "bk = (case po_busKey opts of Some k \<Rightarrow> k | None \<Rightarrow> ''master'')"
  define td where "td = (case po_toneId opts of Some k \<Rightarrow> k | None \<Rightarrow> [])"
  obtain t ps where n: "phrase_event_note tStart beatSec bk td ev = Some (t, ps)"
      and tone: "p_toneId ps = ev_toneId ev"
    using phrase_event_note_tone [of ev tStart beatSec bk td] a by blast
  have "(t, PhraseNote ps) \<in> set (queue (fold (\<lambda>ev e. case phrase_event_note tStart beatSec bk td ev of None \<Rightarrow> e
        | Some (t, params) \<Rightarrow> schedule t (PhraseNote params) e) (ph_events ph) e))"
    using a n by (intro fold_phrase_queue_mem) auto
  then have "(t, PhraseNote ps) \<in> set (queue (snd (playPhrase ph opts now e)))"
    by (simp add: playPhrase_def Let_def tStart_def beatSec_def bk_def td_def)
  then show "\<exists>t ps. p_toneId ps = ev_toneId ev \<and>
         (t, PhraseNote ps) \<in> set (queue (snd (playPhrase ph opts now e)))"
    using tone by blast
next
  fix t rest msg tMax
  assume a: "queue e = (t, PhraseNote params) # rest \<and> t \<le> tMax \<and>
      playNote params now (e\<lparr>queue := rest\<rparr>) = Inl msg"
  then show eq: "pump_loop tMax now e = pump_loop tMax now (e\<lparr>queue := rest, errorLog := errorLog e @ [msg]\<rparr>)"
    by (intro pump_loop_head_error) auto
  obtain ys where "errorLog (pump_loop tMax now (e\<lparr>queue := rest, errorLog := errorLog e @ [msg]\<rparr>))
      = errorLog (e\<lparr>queue := rest, errorLog := errorLog e @ [msg]\<rparr>) @ ys"
    using errorLog_pump_loop_prefix by blast
  then show "msg \<in> set (errorLog (pump_loop tMax now e))"
    using eq by simp
qed

theorem unknown_ids_raise_witness:
  "playNote \<lparr>p_toneId = ''nope'', p_v = NaN, p_t0 = None, p_dSec = NaN, p_busKey = []\<rparr> 0 demo_engine
     = Inl ''Unknown toneId: nope'' \<and>
   playNote \<lparr>p_toneId = ''lead'', p_v = NaN, p_t0 = None, p_dSec = NaN, p_busKey = ''fx''\<rparr> 0 demo_engine
     = Inl ''Unknown bus: fx'' \<and>
   playNote \<lparr>p_toneId = ''lead'', p_v = NaN, p_t0 = None, p_dSec = NaN, p_busKey = []\<rparr> 0 (new_engine 0.12 25)
     = Inl ''toneBank not loaded''"
proof -
  have bank: "toneBank demo_engine = Some [''lead'' \<mapsto> lead_tone]"
    by (simp add: demo_engine_def new_engine_def)
  have nobus: "buses demo_engine ''fx'' = None"
    by (simp add: demo_engine_def new_engine_def)
  have nobank: "toneBank (new_engine 0.12 25) = None"
    by (simp add: new_engine_def)
  have a: "playNote \<lparr>p_toneId = ''nope'', p_v = NaN, p_t0 = None, p_dSec = NaN, p_busKey = []\<rparr> 0 demo_engine
     = Inl ''Unknown toneId: nope''"
    using unknown_ids_raise [of demo_engine
        "\<lparr>p_toneId = ''nope'', p_v = NaN, p_t0 = None, p_dSec = NaN, p_busKey = []\<rparr>" 0]
      bank by simp
  have b: "playNote \<lparr>p_toneId = ''lead'', p_v = NaN, p_t0 = None, p_dSec = NaN, p_busKey = ''fx''\<rparr> 0 demo_engine
     = Inl ''Unknown bus: fx''"
    using unknown_ids_raise [of demo_engine
        "\<lparr>p_toneId = ''lead'', p_v = NaN, p_t0 = None, p_dSec = NaN, p_busKey = ''fx''\<rparr>" 0]
      bank nobus by simp
  have c: "playNote \<lparr>p_toneId = ''lead'', p_v = NaN, p_t0 = None, p_dSec = NaN, p_busKey = []\<rparr> 0 (new_engine 0.12 25)
     = Inl ''toneBank not loaded''"
    using unknown_ids_raise [of "new_engine 0.12 25"
        "\<lparr>p_toneId = ''lead'', p_v = NaN, p_t0 = None, p_dSec = NaN, p_busKey = []\<rparr>" 0]
      nobank by simp
  show ?thesis using a b c by simp
qed

text \<open>
  C9 as stated fails for \<open>playPhrase\<close>: with a tone id that is not in the bank the call
  returns its result and queues the note; the error appears only in the log of a later
  pump, and nothing is raised to the caller.
\<close>

theorem play_phrase_unknown_tone_counterexample:
  "fst (playPhrase nope_phrase no_opts 0 demo_engine) = \<lparr>pr_tStart = 0, pr_tempo = 120, pr_count = 1\<rparr> \<and>
   queue (snd (playPhrase nope_phrase no_opts 0 demo_engine))
     = [(0, PhraseNote \<lparr>p_toneId = ''nope'', p_v = Fin 1, p_t0 = Some 0, p_dSec = Fin (1 / 8), p_busKey = ''master''\<rparr>)] \<and>
   errorLog (snd (playPhrase nope_phrase no_opts 0 demo_engine)) = [] \<and>
   errorLog (pump 0 (snd (playPhrase nope_phrase no_opts 0 demo_engine))) = [''Unknown toneId: nope''] \<and>
   voices (pump 0 (snd (playPhrase nope_phrase no_opts 0 demo_engine))) = {}"
proof -
  have q: "snd (playPhrase nope_phrase no_opts 0 demo_engine)
      = demo_engine\<lparr>queue := [(0, PhraseNote \<lparr>p_toneId = ''nope'', p_v = Fin 1, p_t0 = Some 0,
            p_dSec = Fin (1 / 8), p_busKey = ''master''\<rparr>)]\<rparr>"
    by (simp add: playPhrase_def nope_phrase_def no_opts_def Let_def phrase_event_note_def
        schedule_def demo_engine_def new_engine_def)
  have r: "fst (playPhrase nope_phrase no_opts 0 demo_engine) = \<lparr>pr_tStart = 0, pr_tempo = 120, pr_count = 1\<rparr>"
    by (simp add: playPhrase_def nope_phrase_def no_opts_def Let_def)
  have p: "pump 0 (demo_engine\<lparr>queue := [(0, PhraseNote \<lparr>p_toneId = ''nope'', p_v = Fin 1, p_t0 = Some 0,
            p_dSec = Fin (1 / 8), p_busKey = ''master''\<rparr>)]\<rparr>)
      = demo_engine\<lparr>queue := [], errorLog := [''Unknown toneId: nope'']\<rparr>"
    by (simp add: pump_def pump_loop.simps run_action_def run_note_def playNote_def
        demo_engine_def new_engine_def)
  show ?thesis
    unfolding q p using r by (simp add: demo_engine_def new_engine_def)
qed

section \<open>Properties of buses and mono slots\<close>

subsection \<open>Shared buses\<close>

lemma getBitDepthCurve_frame:
  "busCache (snd (getBitDepthCurve bits s)) = busCache s \<and>
   nextId (snd (getBitDepthCurve bits s)) = nextId s \<and>
   activeTracks (snd (getBitDepthCurve bits s)) = activeTracks s \<and>
   sampleRate (snd (getBitDepthCurve bits s)) = sampleRate s"
  by (simp add: getBitDepthCurve_def Let_def split: option.splits)

lemma getOrCreateBus_hit:
  "busCache s (bus_key k) = Some b \<Longrightarrow> getOrCreateBus k f g s = (b, s)"
  by (simp add: getOrCreateBus_def Let_def)

lemma getOrCreateBus_miss:
  assumes "busCache s (bus_key k) = None"
  shows "busCache (snd (getOrCreateBus k f g s)) = (busCache s)(bus_key k \<mapsto> fst (getOrCreateBus k f g s))"
    and "filterSnapshot (fst (getOrCreateBus k f g s)) = f"
    and "hpf_frequency (fst (getOrCreateBus k f g s)) = (case hpf_hz f of None \<Rightarrow> 20 | Some x \<Rightarrow> x)"
    and "lpf_frequency (fst (getOrCreateBus k f g s)) = (case lpf_hz f of None \<Rightarrow> 12000 | Some x \<Rightarrow> x)"
    and "outGain (fst (getOrCreateBus k f g s)) = numOr g 1"
    and "shaper_curve (fst (getOrCreateBus k f g s))
           = fst (getBitDepthCurve (case bit_depth f of None \<Rightarrow> Fin 12 | Some x \<Rightarrow> x) s)"
    and "bus_id (fst (getOrCreateBus k f g s)) = nextId s"
  using assms
  by (simp_all add: getOrCreateBus_def Let_def getBitDepthCurve_frame)

lemma getOrCreateBus_keeps:
  "busCache s k' = Some b \<Longrightarrow> busCache (snd (getOrCreateBus k f g s)) k' = Some b"
proof (cases "busCache s (bus_key k)")
  case None
  assume "busCache s k' = Some b"
  then have "k' \<noteq> bus_key k" using None by auto
  then show ?thesis
    using getOrCreateBus_miss(1) [OF None] \<open>busCache s k' = Some b\<close> by simp
next
  case (Some b')
  assume "busCache s k' = Some b"
  then show ?thesis using getOrCreateBus_hit [OF Some] by simp
qed

lemma getOrCreateBus_nextId: "nextId s \<le> nextId (snd (getOrCreateBus k f g s))"
  by (simp add: getOrCreateBus_def Let_def getBitDepthCurve_frame split: option.splits)

lemma getOrCreateBus_tracks: "activeTracks (snd (getOrCreateBus k f g s)) = activeTracks s"
  by (simp add: getOrCreateBus_def Let_def getBitDepthCurve_frame split: option.splits)

lemma cut_track_frame:
  "busCache (cut_track tid now s) = busCache s \<and> nextId (cut_track tid now s) = nextId s"
  by (simp add: cut_track_def split: option.splits)

lemma cut_track_bus_frame:
  "busCache (cut_track_bus tid m now s) = busCache s \<and> nextId (cut_track_bus tid m now s) = nextId s"
  by (simp add: cut_track_bus_def Let_def split: option.splits)

lemma playTone_busCache: "busCache (snd (playTone tj w tid now s)) = busCache s"
  by (simp add: playTone_def Let_def getBitDepthCurve_frame cut_track_frame split: option.splits)

lemma playToneBus_keeps:
  "busCache s k' = Some b \<Longrightarrow> busCache (snd (playToneBus tj w bk tid m now s)) k' = Some b"
  by (simp add: playToneBus_def Let_def getOrCreateBus_keeps cut_track_bus_frame split: option.splits)

lemma core_step_keeps:
  "busCache s k' = Some b \<Longrightarrow> busCache (core_step op s) k' = Some b"
  by (cases op)
    (simp_all add: playTone_busCache playToneBus_keeps onended_def getOrCreateBus_keeps
      getBitDepthCurve_frame getPulseWave_def getNoiseBuffer_def Let_def split: option.splits)

lemma fold_core_step_keeps:
  "busCache s k' = Some b \<Longrightarrow> busCache (fold core_step ops s) k' = Some b"
  by (induction ops arbitrary: s) (simp_all add: core_step_keeps)

text \<open>
  C8. When a bus key is requested for the first time, the chain is built from the filter
  block and the gain of that request; from then on, whatever the tone core is asked to
  do (any sequence of its calls), the cache holds that same bus under the key, and every
  later request for the key, with whatever filter block and gain, returns it and
  changes nothing at all; a note routed to the key by \<open>playToneBus\<close> leaves it as it is.
\<close>

theorem bus_settings_frozen:
  assumes "busCache s (bus_key k) = None"
  shows "(let b = fst (getOrCreateBus k f0 g0 s);
              s1 = snd (getOrCreateBus k f0 g0 s);
              s2 = fold core_step ops s1
          in filterSnapshot b = f0 \<and>
             hpf_frequency b = (case hpf_hz f0 of None \<Rightarrow> 20 | Some x \<Rightarrow> x) \<and>
             lpf_frequency b = (case lpf_hz f0 of None \<Rightarrow> 12000 | Some x \<Rightarrow> x) \<and>
             outGain b = numOr g0 1 \<and>
             shaper_curve b = fst (getBitDepthCurve (case bit_depth f0 of None \<Rightarrow> Fin 12 | Some x \<Rightarrow> x) s) \<and>
             busCache s1 (bus_key k) = Some b \<and>
             busCache s2 (bus_key k) = Some b \<and>
             getOrCreateBus k f g s2 = (b, s2) \<and>
             busCache (snd (playToneBus tj w (Some k) tid m now s2)) (bus_key k) = Some b)"
proof -
  define b where "b = fst (getOrCreateBus k f0 g0 s)"
  define s1 where "s1 = snd (getOrCreateBus k f0 g0 s)"
  define s2 where "s2 = fold core_step ops s1"
  have c1: "busCache s1 (bus_key k) = Some b"
    unfolding s1_def b_def using getOrCreateBus_miss(1) [OF assms] by simp
  have c2: "busCache s2 (bus_key k) = Some b"
    unfolding s2_def by (rule fold_core_step_keeps [OF c1])
  have c3: "getOrCreateBus k f g s2 = (b, s2)"
    by (rule getOrCreateBus_hit [OF c2])
  have c4: "busCache (snd (playToneBus tj w (Some k) tid m now s2)) (bus_key k) = Some b"
    by (rule playToneBus_keeps [OF c2])
  show ?thesis
    unfolding Let_def b_def [symmetric] s1_def [symmetric] s2_def [symmetric]
    using c1 c2 c3 c4 getOrCreateBus_miss(2-6) [OF assms, of f0 g0]
    unfolding b_def [symmetric] by blast
qed

theorem bus_settings_frozen_witness:
  "lpf_frequency (fst (getOrCreateBus ''bgm'' empty_filter (Fin 1)
      (snd (playToneBus \<lparr>len_ms = None, env_release = None, tone_filter = Some crunchy\<rparr> 0
              (Some ''bgm'') None NaN 0
              (snd (getOrCreateBus ''bgm'' crunchy (Fin 1) (new_core 44100 False True))))))) = 4000"
proof -
  have miss: "busCache (new_core 44100 False True) (bus_key ''bgm'') = None"
    by (simp add: new_core_def)
  note th = bus_settings_frozen [OF miss, of crunchy "Fin 1"
      "[OpPlayToneBus \<lparr>len_ms = None, env_release = None, tone_filter = Some crunchy\<rparr> 0 (Some ''bgm'') None NaN 0]"
      empty_filter "Fin 1"]
  show ?thesis
    using th unfolding Let_def by (simp add: crunchy_def)
qed

subsection \<open>Mono slots\<close>

lemma cut_track_other:
  "k \<noteq> tid \<Longrightarrow> activeTracks (cut_track (Some tid) now s) k = activeTracks s k"
  by (simp add: cut_track_def split: option.splits)

lemma playTone_registers:
  assumes "playTone tj w (Some tid) now s = (r, s')"
  shows "registered r = Some \<lparr>entry_id = nextId s + 2, sourceNode = nextId s, gainNode = nextId s + 1,
            endTime = res_endTime r, releaseSec = None\<rparr>"
    and "activeTracks s' tid = registered r"
    and "nextId s' = nextId s + 3"
    and "\<forall>k. k \<noteq> tid \<longrightarrow> activeTracks s' k = activeTracks s k"
  using assms
  by (auto simp: playTone_def Let_def getBitDepthCurve_frame cut_track_frame cut_track_other)

lemma playTone_nextId: "nextId s \<le> nextId (snd (playTone tj w tid now s))"
  by (simp add: playTone_def Let_def getBitDepthCurve_frame cut_track_frame split: option.splits)

lemma playToneBus_nextId: "nextId s \<le> nextId (snd (playToneBus tj w bk tid m now s))"
proof -
  define s2 where "s2 = snd (getOrCreateBus (case bk of None \<Rightarrow> ''bgm'' | Some k \<Rightarrow> k)
      (case tone_filter tj of None \<Rightarrow> empty_filter | Some f \<Rightarrow> f) (Fin 1.0) (cut_track_bus tid m now s))"
  have "nextId s = nextId (cut_track_bus tid m now s)" by (simp add: cut_track_bus_frame)
  also have "\<dots> \<le> nextId s2"
    unfolding s2_def by (rule getOrCreateBus_nextId)
  finally have le: "nextId s \<le> nextId s2" .
  have "nextId (snd (playToneBus tj w bk tid m now s)) = nextId s2 + 3"
    by (cases tid) (simp_all add: playToneBus_def Let_def s2_def)
  then show ?thesis using le by simp
qed

lemma core_step_nextId: "nextId s \<le> nextId (core_step op s)"
  by (cases op)
    (simp_all add: playTone_nextId playToneBus_nextId onended_def getOrCreateBus_nextId
      getBitDepthCurve_frame getPulseWave_def getNoiseBuffer_def Let_def split: option.splits)

lemma fold_core_step_nextId: "nextId s \<le> nextId (fold core_step ops s)"
proof (induction ops arbitrary: s)
  case Nil
  then show ?case by simp
next
  case (Cons op ops)
  have "nextId s \<le> nextId (core_step op s)" by (rule core_step_nextId)
  also have "\<dots> \<le> nextId (fold core_step ops (core_step op s))" by (rule Cons)
  finally show ?case by simp
qed

lemma onended_own:
  "activeTracks s tid = Some e \<Longrightarrow> activeTracks (onended tid e s) tid = None"
  by (simp add: onended_def)

lemma onended_other:
  "activeTracks s tid \<noteq> Some e \<Longrightarrow> onended tid e s = s"
  by (simp add: onended_def)

lemma onended_twice: "onended tid e (onended tid e s) = onended tid e s"
  by (simp add: onended_def)

lemma start_voice_mono:
  assumes "tone_mono tone \<noteq> Poly"
  shows "activeMono (snd (start_voice tone params bk t0 e)) (p_toneId params)
           = Some \<lparr>stopAt = tR (fst (start_voice tone params bk t0 e)),
                   stopper = voiceId (fst (start_voice tone params bk t0 e))\<rparr>"
    and "voiceId (fst (start_voice tone params bk t0 e)) \<in> voices (snd (start_voice tone params bk t0 e))"
    and "voiceId (fst (start_voice tone params bk t0 e)) = voiceSerial e"
    and "voiceSerial (snd (start_voice tone params bk t0 e)) = Suc (voiceSerial e)"
  using assms
  by (simp_all add: start_voice_def Let_def schedule_def split: option.splits)

lemma cleanup_effect:
  "voices (run_action (VoiceCleanup vid) now e) = voices e - {vid} \<and>
   activeMono (run_action (VoiceCleanup vid) now e) = activeMono e"
  by (simp add: run_action_def)

text \<open>
  C3 (amended). A key of either mono map holds at most one entry (it is a map). For a
  track id of \<open>playTone\<close>: the entry of a voice is fresh, the \<open>onended\<close> handler of the
  voice deletes the entry of the track only while it is the voice's own (a second
  notification changes nothing), and once a later trigger on the track has replaced the
  entry, the handler of the older voice changes nothing. For a tone id of \<open>playNote\<close>: a
  non-poly voice takes the slot of its tone, and its scheduled clean-up removes the
  voice from \<open>_voices\<close> only; the mono slot is left as it is.
\<close>

theorem mono_slot_registration:
  "(\<forall>rA sA rB sB. playTone tjA wA (Some tid) nowA s = (rA, sA) \<and>
       playTone tjB wB (Some tid) nowB (fold core_step ops sA) = (rB, sB) \<longrightarrow>
       (\<exists>eA eB. registered rA = Some eA \<and> registered rB = Some eB \<and> eA \<noteq> eB \<and>
          activeTracks sA tid = Some eA \<and> activeTracks sB tid = Some eB \<and>
          activeTracks (onended tid eA sA) tid = None \<and>
          onended tid eA (onended tid eA sA) = onended tid eA sA \<and>
          onended tid eA sB = sB \<and>
          activeTracks (onended tid eB sB) tid = None)) \<and>
   (\<forall>tones tone info e'. toneBank e = Some tones \<and> tones (p_toneId params) = Some tone \<and>
       tone_mono tone \<noteq> Poly \<and> playNote params now e = Inr (info, e') \<longrightarrow>
       activeMono e' (p_toneId params) = Some \<lparr>stopAt = tR info, stopper = voiceId info\<rparr> \<and>
       voiceId info \<in> voices e' \<and>
       voices (run_action (VoiceCleanup (voiceId info)) now' e') = voices e' - {voiceId info} \<and>
       activeMono (run_action (VoiceCleanup (voiceId info)) now' e') = activeMono e')"
proof (intro conjI allI impI)
  fix rA sA rB sB
  assume a: "playTone tjA wA (Some tid) nowA s = (rA, sA) \<and>
       playTone tjB wB (Some tid) nowB (fold core_step ops sA) = (rB, sB)"
  define s' where "s' = fold core_step ops sA"
  define eA where "eA = \<lparr>entry_id = nextId s + 2, sourceNode = nextId s, gainNode = nextId s + 1,
            endTime = res_endTime rA, releaseSec = None\<rparr>"
  define eB where "eB = \<lparr>entry_id = nextId s' + 2, sourceNode = nextId s', gainNode = nextId s' + 1,
            endTime = res_endTime rB, releaseSec = None\<rparr>"
  from a have A: "playTone tjA wA (Some tid) nowA s = (rA, sA)"
    and B: "playTone tjB wB (Some tid) nowB s' = (rB, sB)"
    by (simp_all add: s'_def)
  have rA: "registered rA = Some eA" and tA: "activeTracks sA tid = Some eA"
    and nA: "nextId sA = nextId s + 3"
    using playTone_registers(1-3) [OF A] by (simp_all add: eA_def)
  have rB: "registered rB = Some eB" and tB: "activeTracks sB tid = Some eB"
    using playTone_registers(1-2) [OF B] by (simp_all add: eB_def)
  have "nextId sA \<le> nextId s'" unfolding s'_def by (rule fold_core_step_nextId)
  then have "entry_id eA < entry_id eB" using nA by (simp add: eA_def eB_def)
  then have ne: "eA \<noteq> eB" by auto
  have o1: "activeTracks (onended tid eA sA) tid = None" by (rule onended_own [OF tA])
  have o2: "onended tid eA (onended tid eA sA) = onended tid eA sA" by (rule onended_twice)
  have o3: "onended tid eA sB = sB" using tB ne by (intro onended_other) auto
  have o4: "activeTracks (onended tid eB sB) tid = None" by (rule onended_own [OF tB])
  show "\<exists>eA eB. registered rA = Some eA \<and> registered rB = Some eB \<and> eA \<noteq> eB \<and>
          activeTracks sA tid = Some eA \<and> activeTracks sB tid = Some eB \<and>
          activeTracks (onended tid eA sA) tid = None \<and>
          onended tid eA (onended tid eA sA) = onended tid eA sA \<and>
          onended tid eA sB = sB \<and>
          activeTracks (onended tid eB sB) tid = None"
    using rA rB ne tA tB o1 o2 o3 o4 by blast
next
  fix tones tone info e'
  assume a: "toneBank e = Some tones \<and> tones (p_toneId params) = Some tone \<and>
       tone_mono tone \<noteq> Poly \<and> playNote params now e = Inr (info, e')"
  define bk where "bk = (if p_busKey params = [] then ''master'' else p_busKey params)"
  define t0 where "t0 = (case p_t0 params of Some t \<Rightarrow> t | None \<Rightarrow> now)"
  from a have r: "start_voice tone params bk t0 e = (info, e')"
    by (auto simp: playNote_def Let_def bk_def t0_def split: option.splits)
  from a have m: "tone_mono tone \<noteq> Poly" by simp
  show "activeMono e' (p_toneId params) = Some \<lparr>stopAt = tR info, stopper = voiceId info\<rparr>"
    using start_voice_mono(1) [OF m, of params bk t0 e] by (simp add: r)
  show "voiceId info \<in> voices e'"
    using start_voice_mono(2) [OF m, of params bk t0 e] by (simp add: r)
  show "voices (run_action (VoiceCleanup (voiceId info)) now' e') = voices e' - {voiceId info}"
    by (simp add: cleanup_effect)
  show "activeMono (run_action (VoiceCleanup (voiceId info)) now' e') = activeMono e'"
    by (simp add: cleanup_effect)
qed

theorem mono_slot_registration_witness:
  "activeTracks (snd (playTone short_tone 0 (Some ''bass'') 1
       (snd (playTone short_tone 0 (Some ''bass'') 0 (new_core 44100 False True))))) ''bass''
     \<noteq> activeTracks (snd (playTone short_tone 0 (Some ''bass'') 0 (new_core 44100 False True))) ''bass'' \<and>
   activeTracks (onended ''bass''
        (the (registered (fst (playTone short_tone 0 (Some ''bass'') 0 (new_core 44100 False True)))))
        (snd (playTone short_tone 0 (Some ''bass'') 1
           (snd (playTone short_tone 0 (Some ''bass'') 0 (new_core 44100 False True)))))) ''bass''
     \<noteq> None"
proof -
  define A where "A = playTone short_tone 0 (Some ''bass'') 0 (new_core 44100 False True)"
  define B where "B = playTone short_tone 0 (Some ''bass'') 1 (snd A)"
  have pre: "playTone short_tone 0 (Some ''bass'') 0 (new_core 44100 False True) = (fst A, snd A) \<and>
       playTone short_tone 0 (Some ''bass'') 1 (fold core_step [] (snd A)) = (fst B, snd B)"
    by (simp add: A_def B_def)
  obtain eA eB where r: "registered (fst A) = Some eA" "registered (fst B) = Some eB" "eA \<noteq> eB"
      "activeTracks (snd A) ''bass'' = Some eA" "activeTracks (snd B) ''bass'' = Some eB"
      "onended ''bass'' eA (snd B) = snd B"
    using mono_slot_registration [of short_tone 0 "''bass''" 0 "new_core 44100 False True"
        short_tone 0 1 "[]", THEN conjunct1, rule_format, OF pre]
    by blast
  show ?thesis
    unfolding A_def [symmetric] B_def [symmetric] using r by simp
qed

text \<open>
  C3 as stated fails for the tone ids of \<open>playNote\<close>: a mono note of 0.1 s is long over
  at clock time 10, its clean-up has run and the voice is gone from \<open>_voices\<close>, but the
  slot of the tone still holds the voice.
\<close>

theorem mono_slot_kept_counterexample:
  "voices (snd (projr (playNote lead_note 0 demo_engine))) = {1} \<and>
   queue (snd (projr (playNote lead_note 0 demo_engine))) = [(13 / 50, VoiceCleanup 1)] \<and>
   voices (pump 10 (snd (projr (playNote lead_note 0 demo_engine)))) = {} \<and>
   queue (pump 10 (snd (projr (playNote lead_note 0 demo_engine)))) = [] \<and>
   activeMono (pump 10 (snd (projr (playNote lead_note 0 demo_engine)))) ''lead''
     = Some \<lparr>stopAt = 4 / 25, stopper = 1\<rparr>"
proof -
  define E1 where "E1 = snd (projr (playNote lead_note 0 demo_engine))"
  have v: "voices E1 = {1}" and q: "queue E1 = [(13 / 50, VoiceCleanup 1)]"
    and m: "activeMono E1 ''lead'' = Some \<lparr>stopAt = 4 / 25, stopper = 1\<rparr>"
    and run: "running E1" and la: "lookaheadSec E1 = 0.12"
    by (simp_all add: E1_def playNote_def lead_note_def demo_engine_def new_engine_def lead_tone_def
        start_voice_def note_envelope_def default_env_def numOr_def clamp_def finite_or_def
        schedule_def Let_def)
  have p: "pump 10 E1 = E1\<lparr>queue := [], voices := {}\<rparr>"
    using v q run la
    by (simp add: pump_def pump_loop.simps [of _ _ E1] pump_loop.simps [of _ _ "E1\<lparr>queue := [], voices := {}\<rparr>"]
        run_action_def)
  show ?thesis
    unfolding E1_def [symmetric] p using v q m by simp
qed

section \<open>Properties of song playback\<close>

subsection \<open>The loop clamp\<close>







section \<open>Properties of the loop windows\<close>

subsection \<open>Rounding to a double\<close>

lemma rne_error: "\<bar>of_int (rne y) - y\<bar> \<le> 1 / 2"
proof -
  have "of_int \<lfloor>y\<rfloor> \<le> y" "y < of_int \<lfloor>y\<rfloor> + 1" by linarith+
  then show ?thesis by (auto simp: rne_def Let_def)
qed

lemma fl_error: "\<bar>fl x - x\<bar> \<le> \<bar>x\<bar> / 2 ^ 53"
proof (cases "x = 0")
  case True
  then show ?thesis by (simp add: fl_def)
next
  case False
  define e where "e = \<lfloor>log 2 \<bar>x\<bar>\<rfloor>"
  define q :: real where "q = 2 powr (of_int e - 52)"
  have q: "0 < q" by (simp add: q_def)
  have "of_int e \<le> log 2 \<bar>x\<bar>" by (simp add: e_def)
  then have "2 powr of_int e \<le> \<bar>x\<bar>"
    using False by (simp add: le_log_iff)
  moreover have "2 powr of_int e = q * 2 ^ 52"
    by (simp add: q_def powr_diff)
  ultimately have lo: "q * 2 ^ 52 \<le> \<bar>x\<bar>" by simp
  have "fl x - x = (of_int (rne (x / q)) - x / q) * q"
    using False q by (simp add: fl_def Let_def e_def q_def algebra_simps)
  then have "\<bar>fl x - x\<bar> = \<bar>of_int (rne (x / q)) - x / q\<bar> * q"
    using q by (simp add: abs_mult)
  also have "\<dots> \<le> 1 / 2 * q"
    using q rne_error [of "x / q"] by (intro mult_right_mono) simp_all
  also have "\<dots> = q * 2 ^ 52 / 2 ^ 53" by simp
  also have "\<dots> \<le> \<bar>x\<bar> / 2 ^ 53"
    using lo by (intro divide_right_mono) simp_all
  finally show ?thesis .
qed

lemma fl_error_nonneg:
  assumes "0 \<le> x"
  shows "\<bar>fl x - x\<bar> \<le> x / 2 ^ 53"
proof -
  have "\<bar>x\<bar> = x" using assms by simp
  then show ?thesis using fl_error [of x] by simp
qed

lemma fl_ge_half:
  assumes "0 \<le> x"
  shows "x / 2 \<le> fl x"
proof -
  have "x / 2 ^ 53 \<le> x / 2"
    using assms by (intro divide_left_mono) simp_all
  then have "\<bar>fl x - x\<bar> \<le> x / 2"
    using fl_error_nonneg [OF assms] by (rule order_trans [rotated])
  then show ?thesis by linarith
qed

lemma fl_le_twice:
  assumes "0 \<le> x"
  shows "fl x \<le> 2 * x"
proof -
  have "x / 2 ^ 53 \<le> x"
    using assms by (simp add: field_simps)
  then have "\<bar>fl x - x\<bar> \<le> x"
    using fl_error_nonneg [OF assms] by (rule order_trans [rotated])
  then show ?thesis by linarith
qed

lemma fl_pos:
  assumes "0 < x"
  shows "0 < fl x"
  using fl_ge_half [of x] assms by simp

lemma fl_scale_down:
  assumes "2 ^ 52 \<le> \<bar>x\<bar> * 2 ^ n" "\<bar>x\<bar> * 2 ^ n < 2 ^ 53"
  shows "fl x = of_int (rne (x * 2 ^ n)) / 2 ^ n"
proof -
  have nz: "x \<noteq> 0" using assms(1) by auto
  have pos: "0 < \<bar>x\<bar>" using nz by simp
  have "\<lfloor>log 2 \<bar>x\<bar>\<rfloor> = 52 - int n"
  proof (rule floor_unique)
    have "2 powr (52 - real n) = 2 ^ 52 / 2 ^ n"
      by (simp add: powr_diff powr_realpow)
    also have "\<dots> \<le> \<bar>x\<bar>" using assms(1) by (simp add: field_simps)
    finally have "52 - real n \<le> log 2 \<bar>x\<bar>" using pos by (simp add: le_log_iff)
    then show "of_int (52 - int n) \<le> log 2 \<bar>x\<bar>" by simp
    have "\<bar>x\<bar> < 2 ^ 53 / 2 ^ n" using assms(2) by (simp add: field_simps)
    also have "\<dots> = 2 powr (53 - real n)"
      by (simp add: powr_diff powr_realpow)
    finally have "log 2 \<bar>x\<bar> < 53 - real n" using pos by (simp add: log_less_iff)
    then show "log 2 \<bar>x\<bar> < of_int (52 - int n) + 1" by simp
  qed
  moreover have "(2::real) powr (of_int (52 - int n) - 52) = 1 / 2 ^ n"
    by (simp add: powr_minus powr_realpow field_simps)
  ultimately show ?thesis using nz by (simp add: fl_def Let_def)
qed

subsection \<open>Loop windows\<close>

lemma loop_window_error:
  assumes "0 \<le> sp_loopLenSec sp"
  shows "\<bar>loop_window_start sp i - (sp_loopBaseT sp + real i * sp_loopLenSec sp)\<bar>
           \<le> 3 * (\<bar>sp_loopBaseT sp\<bar> + real i * sp_loopLenSec sp) / 2 ^ 53"
proof -
  define b where "b = sp_loopBaseT sp"
  define p where "p = real i * sp_loopLenSec sp"
  define P where "P = fl p"
  have p0: "0 \<le> p" using assms by (simp add: p_def)
  have e1: "\<bar>P - p\<bar> \<le> p / 2 ^ 53" unfolding P_def by (rule fl_error_nonneg [OF p0])
  have P2: "P \<le> 2 * p" unfolding P_def by (rule fl_le_twice [OF p0])
  have P0: "0 \<le> P" using fl_ge_half [OF p0] p0 by (simp add: P_def)
  have "\<bar>b + P\<bar> \<le> \<bar>b\<bar> + 2 * p" using P2 P0 by linarith
  then have "\<bar>b + P\<bar> / 2 ^ 53 \<le> (\<bar>b\<bar> + 2 * p) / 2 ^ 53"
    by (intro divide_right_mono) simp_all
  then have e2: "\<bar>fl (b + P) - (b + P)\<bar> \<le> (\<bar>b\<bar> + 2 * p) / 2 ^ 53"
    using fl_error [of "b + P"] by linarith
  have "\<bar>fl (b + P) - (b + p)\<bar> \<le> \<bar>fl (b + P) - (b + P)\<bar> + \<bar>P - p\<bar>" by linarith
  also have "\<dots> \<le> (\<bar>b\<bar> + 2 * p) / 2 ^ 53 + p / 2 ^ 53" using e1 e2 by linarith
  also have "\<dots> = (\<bar>b\<bar> + 3 * p) / 2 ^ 53" by (simp add: add_divide_distrib)
  also have "\<dots> \<le> 3 * (\<bar>b\<bar> + p) / 2 ^ 53"
    using p0 by (intro divide_right_mono) simp_all
  finally show ?thesis
    by (simp add: loop_window_start_def fadd_def fmul_def b_def p_def P_def)
qed

lemma loop_window_step_error:
  assumes "0 \<le> sp_loopLenSec sp"
  shows "\<bar>loop_window_start sp (Suc i) - loop_window_start sp i - sp_loopLenSec sp\<bar>
           \<le> 6 * (\<bar>sp_loopBaseT sp\<bar> + real (Suc i) * sp_loopLenSec sp) / 2 ^ 53"
proof -
  define b where "b = sp_loopBaseT sp"
  define l where "l = sp_loopLenSec sp"
  define A where "A = loop_window_start sp (Suc i)"
  define B where "B = loop_window_start sp i"
  have l0: "0 \<le> l" using assms by (simp add: l_def)
  have a: "\<bar>A - (b + real (Suc i) * l)\<bar> \<le> 3 * (\<bar>b\<bar> + real (Suc i) * l) / 2 ^ 53"
    unfolding A_def b_def l_def by (rule loop_window_error [OF assms])
  have "\<bar>B - (b + real i * l)\<bar> \<le> 3 * (\<bar>b\<bar> + real i * l) / 2 ^ 53"
    unfolding B_def b_def l_def by (rule loop_window_error [OF assms])
  also have "\<dots> \<le> 3 * (\<bar>b\<bar> + real (Suc i) * l) / 2 ^ 53"
    using l0 by (intro divide_right_mono) (simp_all add: algebra_simps)
  finally have c: "\<bar>B - (b + real i * l)\<bar> \<le> 3 * (\<bar>b\<bar> + real (Suc i) * l) / 2 ^ 53" .
  have "A - B - l = (A - (b + real (Suc i) * l)) - (B - (b + real i * l))"
    by (simp add: algebra_simps)
  then have "\<bar>A - B - l\<bar> \<le> \<bar>A - (b + real (Suc i) * l)\<bar> + \<bar>B - (b + real i * l)\<bar>"
    by linarith
  also have "\<dots> \<le> 6 * (\<bar>b\<bar> + real (Suc i) * l) / 2 ^ 53" using a c by linarith
  finally show ?thesis unfolding A_def B_def b_def l_def .
qed

lemma loop_window_unbounded:
  assumes "0 < sp_loopLenSec sp"
  shows "\<exists>n\<ge>j. tMax < loop_window_start sp n"
proof -
  define b where "b = sp_loopBaseT sp"
  define l where "l = sp_loopLenSec sp"
  define K where "K = \<bar>b\<bar> + 2 * \<bar>tMax\<bar> + 1"
  have l0: "0 < l" using assms by (simp add: l_def)
  obtain m :: nat where m: "2 * K / l < real m" using reals_Archimedean2 by blast
  define n where "n = max m j"
  define p where "p = real n * l"
  have "2 * K / l < real n" using m by (simp add: n_def)
  then have pK: "2 * K < p" using l0 by (simp add: p_def pos_divide_less_eq)
  have K0: "0 < K" by (simp add: K_def)
  have p0: "0 \<le> p" using pK K0 by linarith
  have "K \<le> fl p" using fl_ge_half [OF p0] pK by linarith
  then have y: "2 * \<bar>tMax\<bar> + 1 \<le> b + fl p" unfolding K_def by linarith
  then have y0: "0 \<le> b + fl p" by linarith
  have "tMax < fl (b + fl p)" using fl_ge_half [OF y0] y by argo
  then have "tMax < loop_window_start sp n"
    by (simp add: loop_window_start_def fadd_def fmul_def b_def p_def l_def)
  moreover have "j \<le> n" by (simp add: n_def)
  ultimately show ?thesis by blast
qed

lemma loop_player_counter_irrelevant:
  "loop_window_start (sp\<lparr>nextLoopI := j\<rparr>) = loop_window_start sp"
  "schedule_loop_window sg (sp\<lparr>nextLoopI := j\<rparr>) = schedule_loop_window sg sp"
  by (simp_all add: loop_window_start_def schedule_loop_window_def fun_eq_iff)

lemma loop_fill_run:
  assumes "j \<le> n" "\<forall>i. j \<le> i \<and> i < n \<longrightarrow> loop_window_start sp i \<le> tMax"
    "tMax < loop_window_start sp n"
  shows "loop_fill sg tMax (sp\<lparr>nextLoopI := j\<rparr>) e =
     Some (sp\<lparr>nextLoopI := n\<rparr>,
           fold (\<lambda>i. schedule_loop_window sg sp (loop_window_start sp i)) [j..<n] e)"
  using assms
proof (induction "n - j" arbitrary: j e)
  case 0
  then have jn: "j = n" by simp
  have "\<not> loop_window_start (sp\<lparr>nextLoopI := n\<rparr>) (nextLoopI (sp\<lparr>nextLoopI := n\<rparr>)) \<le> tMax"
    using "0.prems"(3) by (simp add: loop_player_counter_irrelevant)
  then have "loop_fill sg tMax (sp\<lparr>nextLoopI := n\<rparr>) e = Some (sp\<lparr>nextLoopI := n\<rparr>, e)"
    by (subst loop_fill.simps) simp
  then show ?case by (simp add: jn)
next
  case (Suc k)
  then have lt: "j < n" by simp
  then have due: "loop_window_start sp j \<le> tMax" using Suc.prems(2) by simp
  define e' where "e' = schedule_loop_window sg sp (loop_window_start sp j) e"
  have step: "loop_fill sg tMax (sp\<lparr>nextLoopI := j\<rparr>) e = loop_fill sg tMax (sp\<lparr>nextLoopI := Suc j\<rparr>) e'"
    by (subst loop_fill.simps) (simp add: due Let_def e'_def loop_player_counter_irrelevant)
  have k: "k = n - Suc j" using Suc.hyps(2) by simp
  have IH: "loop_fill sg tMax (sp\<lparr>nextLoopI := Suc j\<rparr>) e' =
     Some (sp\<lparr>nextLoopI := n\<rparr>,
           fold (\<lambda>i. schedule_loop_window sg sp (loop_window_start sp i)) [Suc j..<n] e')"
    using Suc.prems(2) lt by (intro Suc.hyps(1) [OF k] Suc.prems(3)) simp_all
  have upt: "[j..<n] = j # [Suc j..<n]" using lt by (simp add: upt_conv_Cons)
  show ?case unfolding step IH upt by (simp add: e'_def)
qed

lemma loop_fill_from:
  assumes "0 < sp_loopLenSec sp"
  shows "\<exists>n. loop_fill sg tMax (sp\<lparr>nextLoopI := j\<rparr>) e =
           Some (sp\<lparr>nextLoopI := n\<rparr>,
                 fold (\<lambda>i. schedule_loop_window sg sp (loop_window_start sp i)) [j..<n] e) \<and>
         j \<le> n \<and> (\<forall>i. j \<le> i \<and> i < n \<longrightarrow> loop_window_start sp i \<le> tMax) \<and>
         tMax < loop_window_start sp n"
proof -
  define Q where "Q = (\<lambda>n. j \<le> n \<and> tMax < loop_window_start sp n)"
  have ex: "\<exists>n. Q n" using loop_window_unbounded [OF assms, of j tMax] by (auto simp: Q_def)
  define n where "n = (LEAST n. Q n)"
  have Qn: "Q n" unfolding n_def using ex by (rule LeastI_ex)
  have least: "\<not> Q i" if "i < n" for i using that not_less_Least unfolding n_def by blast
  have before: "\<forall>i. j \<le> i \<and> i < n \<longrightarrow> loop_window_start sp i \<le> tMax"
    using least by (auto simp: Q_def not_less)
  have jn: "j \<le> n" and after: "tMax < loop_window_start sp n" using Qn by (simp_all add: Q_def)
  have "loop_fill sg tMax (sp\<lparr>nextLoopI := j\<rparr>) e =
     Some (sp\<lparr>nextLoopI := n\<rparr>,
           fold (\<lambda>i. schedule_loop_window sg sp (loop_window_start sp i)) [j..<n] e)"
    by (rule loop_fill_run [OF jn before after])
  then show ?thesis using jn before after by blast
qed

lemma pumpLoop_returns:
  assumes "0 < sp_loopLenSec sp"
  shows "\<exists>n e'. pumpLoop sg now sp e = Some (sp\<lparr>nextLoopI := n\<rparr>, e') \<and> nextLoopI sp \<le> n"
proof (cases "sp_handle sp \<in> stoppedSongs e")
  case True
  then have "pumpLoop sg now sp e = Some (sp\<lparr>nextLoopI := nextLoopI sp\<rparr>, e)"
    by (simp add: pumpLoop_def)
  then show ?thesis by blast
next
  case False
  obtain n where "loop_fill sg (fadd (fadd now (lookaheadSec e)) (sp_loopLeadSec sp)) (sp\<lparr>nextLoopI := nextLoopI sp\<rparr>) e =
           Some (sp\<lparr>nextLoopI := n\<rparr>,
                 fold (\<lambda>i. schedule_loop_window sg sp (loop_window_start sp i)) [nextLoopI sp..<n] e)"
      and "nextLoopI sp \<le> n"
    using loop_fill_from [OF assms, of sg _ "nextLoopI sp" e] by blast
  then show ?thesis using False by (auto simp: pumpLoop_def)
qed

lemma playSong_loop:
  assumes "(case so_loop opts of Some l \<Rightarrow> Some l | None \<Rightarrow> sg_loop sg) = Some (ls, le)" and "ls < le"
  shows "\<exists>sp e'. playSong sg opts h now e = Some (Some sp, e') \<and>
           sp_loopLenSec sp = fmul (fsub le ls) (fdiv 60 (max 1 (resolved_tempo sg opts))) \<and>
           sp_loopBaseT sp = fadd (case so_tStart opts of Some t \<Rightarrow> t | None \<Rightarrow> now)
                               (fmul le (fdiv 60 (max 1 (resolved_tempo sg opts)))) \<and>
           0 < sp_loopLenSec sp \<and> 1 \<le> nextLoopI sp"
proof -
  define beatSec where "beatSec = fdiv 60 (max 1 (resolved_tempo sg opts))"
  define tStart where "tStart = (case so_tStart opts of Some t \<Rightarrow> t | None \<Rightarrow> now)"
  define sp0 where "sp0 = \<lparr>sp_handle = h, sp_beatSec = beatSec, sp_clamp = loopClamp opts,
                            sp_loopStart = ls, sp_loopEnd = le,
                            sp_loopLenSec = fmul (fsub le ls) beatSec,
                            sp_loopBaseT = fadd tStart (fmul le beatSec),
                            sp_loopLeadSec = (case loopLeadSec opts of Some x \<Rightarrow> x | None \<Rightarrow> 6.0),
                            nextLoopI = 0\<rparr>"
  define e3 where "e3 = schedule_loop_window sg sp0 (fadd tStart (fmul le beatSec))
      (scheduleTracks sg (loopClamp opts) h beatSec tStart 0 (Some \<lparr>w_start = le, w_end = PosInf\<rparr>) 0
        (scheduleTracks sg (loopClamp opts) h beatSec tStart 0 (Some \<lparr>w_start = 0, w_end = Fin le\<rparr>) 0 e))"
  have ps: "playSong sg opts h now e =
      (case pumpLoop sg now (sp0\<lparr>nextLoopI := 1\<rparr>) e3 of
         None \<Rightarrow> None | Some (sp', e4) \<Rightarrow> Some (Some sp', e4))"
    using assms
    by (simp add: playSong_def Let_def beatSec_def tStart_def sp0_def e3_def resolved_tempo_def)
  have "(0::real) < 60 / max 1 (resolved_tempo sg opts)" by simp
  then have b0: "0 < beatSec" unfolding beatSec_def fdiv_def by (rule fl_pos)
  have "0 < fsub le ls" unfolding fsub_def using assms(2) by (intro fl_pos) simp
  then have "0 < fsub le ls * beatSec" using b0 by simp
  then have "0 < fmul (fsub le ls) beatSec" unfolding fmul_def by (rule fl_pos)
  then have pos: "0 < sp_loopLenSec (sp0\<lparr>nextLoopI := 1\<rparr>)"
    by (simp add: sp0_def)
  obtain n e' where p: "pumpLoop sg now (sp0\<lparr>nextLoopI := 1\<rparr>) e3 = Some (sp0\<lparr>nextLoopI := 1\<rparr>\<lparr>nextLoopI := n\<rparr>, e')"
      and n: "nextLoopI (sp0\<lparr>nextLoopI := 1\<rparr>) \<le> n"
    using pumpLoop_returns [OF pos] by blast
  have "playSong sg opts h now e = Some (Some (sp0\<lparr>nextLoopI := n\<rparr>), e')"
    unfolding ps p by simp
  moreover have "sp_loopLenSec (sp0\<lparr>nextLoopI := n\<rparr>) = fmul (fsub le ls) beatSec"
      "sp_loopBaseT (sp0\<lparr>nextLoopI := n\<rparr>) = fadd tStart (fmul le beatSec)"
      "0 < sp_loopLenSec (sp0\<lparr>nextLoopI := n\<rparr>)"
      "1 \<le> nextLoopI (sp0\<lparr>nextLoopI := n\<rparr>)"
    using n pos by (simp_all add: sp0_def)
  ultimately show ?thesis
    unfolding beatSec_def tStart_def by blast
qed

lemma fmul_error:
  assumes "0 \<le> a" "0 \<le> b" "\<bar>A - a\<bar> \<le> a / 2 ^ 53" "\<bar>B - b\<bar> \<le> b / 2 ^ 53"
  shows "\<bar>fmul A B - a * b\<bar> \<le> 7 * (a * b) / 2 ^ 53"
proof -
  define u :: real where "u = 1 / 2 ^ 53"
  have u: "0 < u" "u \<le> 1" by (simp_all add: u_def)
  have ea: "\<bar>A - a\<bar> \<le> a * u" and eb: "\<bar>B - b\<bar> \<le> b * u"
    using assms(3,4) by (simp_all add: u_def)
  have "a * u \<le> a * 1" using u assms(1) by (intro mult_left_mono) simp_all
  then have A: "0 \<le> A" "A \<le> 2 * a" using ea by linarith+
  have "b * u \<le> b * 1" using u assms(2) by (intro mult_left_mono) simp_all
  then have B: "0 \<le> B" "B \<le> 2 * b" using eb by linarith+
  have AB0: "0 \<le> A * B" using A B by simp
  have AB4: "A * B \<le> (2 * a) * (2 * b)" using A B by (intro mult_mono) simp_all
  have "A * B - a * b = (A - a) * B + a * (B - b)" by (simp add: algebra_simps)
  then have "\<bar>A * B - a * b\<bar> \<le> \<bar>A - a\<bar> * \<bar>B\<bar> + \<bar>a\<bar> * \<bar>B - b\<bar>"
    by (metis abs_mult abs_triangle_ineq)
  also have "\<dots> \<le> (a * u) * (2 * b) + a * (b * u)"
    using ea eb A B assms(1) by (intro add_mono mult_mono) simp_all
  also have "\<dots> = 3 * (a * b) * u" by (simp add: algebra_simps)
  finally have e1: "\<bar>A * B - a * b\<bar> \<le> 3 * (a * b) * u" .
  have "\<bar>fl (A * B) - A * B\<bar> \<le> (A * B) * u"
    using fl_error_nonneg [OF AB0] by (simp add: u_def)
  also have "\<dots> \<le> ((2 * a) * (2 * b)) * u"
    using AB4 u by (intro mult_right_mono) simp_all
  also have "\<dots> = 4 * (a * b) * u" by simp
  finally have e2: "\<bar>fl (A * B) - A * B\<bar> \<le> 4 * (a * b) * u" .
  have "\<bar>fl (A * B) - a * b\<bar> \<le> \<bar>fl (A * B) - A * B\<bar> + \<bar>A * B - a * b\<bar>" by linarith
  also have "\<dots> \<le> 7 * (a * b) * u" using e1 e2 by linarith
  finally show ?thesis by (simp add: fmul_def u_def)
qed

lemma loop_length_error:
  assumes "ls \<le> le" "0 < T"
  shows "\<bar>fmul (fsub le ls) (fdiv 60 T) - (le - ls) * (60 / T)\<bar> \<le> 7 * ((le - ls) * (60 / T)) / 2 ^ 53"
proof (rule fmul_error)
  show "0 \<le> le - ls" using assms by simp
  show "0 \<le> 60 / T" using assms by simp
  show "\<bar>fsub le ls - (le - ls)\<bar> \<le> (le - ls) / 2 ^ 53"
    unfolding fsub_def using assms by (intro fl_error_nonneg) simp
  show "\<bar>fdiv 60 T - 60 / T\<bar> \<le> 60 / T / 2 ^ 53"
    unfolding fdiv_def using assms by (intro fl_error_nonneg) simp
qed

lemma fl_values:
  "fl (1 / 2) = 1 / 2" "fl 1 = 1" "fl 2 = 2" "fl 4 = 4" "fl 6 = 6" "fl 8 = 8" "fl 60 = 60"
  "fl 240 = 240" "fl 20000 = 20000" "fl 20002 = 20002"
  "fl (2 / 3) = 6004799503160661 / 9007199254740992"
  "fl (6004799503160661 / 9007199254740992) = 6004799503160661 / 9007199254740992"
  "fl (6004799503160661 / 4503599627370496) = 6004799503160661 / 4503599627370496"
  "fl (18014398509481983 / 9007199254740992) = 2"
proof -
  show "fl (1 / 2) = 1 / 2" by (subst fl_scale_down [of _ 53]) (simp_all add: rne_def Let_def)
  show "fl 1 = 1" by (subst fl_scale_down [of _ 52]) (simp_all add: rne_def Let_def)
  show "fl 2 = 2" by (subst fl_scale_down [of _ 51]) (simp_all add: rne_def Let_def)
  show "fl 4 = 4" by (subst fl_scale_down [of _ 50]) (simp_all add: rne_def Let_def)
  show "fl 6 = 6" by (subst fl_scale_down [of _ 50]) (simp_all add: rne_def Let_def)
  show "fl 8 = 8" by (subst fl_scale_down [of _ 49]) (simp_all add: rne_def Let_def)
  show "fl 60 = 60" by (subst fl_scale_down [of _ 47]) (simp_all add: rne_def Let_def)
  show "fl 240 = 240" by (subst fl_scale_down [of _ 45]) (simp_all add: rne_def Let_def)
  show "fl 20000 = 20000" by (subst fl_scale_down [of _ 38]) (simp_all add: rne_def Let_def)
  show "fl 20002 = 20002" by (subst fl_scale_down [of _ 38]) (simp_all add: rne_def Let_def)
  show "fl (2 / 3) = 6004799503160661 / 9007199254740992"
    by (subst fl_scale_down [of _ 53]) (simp_all add: rne_def Let_def)
  show "fl (6004799503160661 / 9007199254740992) = 6004799503160661 / 9007199254740992"
    by (subst fl_scale_down [of _ 53]) (simp_all add: rne_def Let_def)
  show "fl (6004799503160661 / 4503599627370496) = 6004799503160661 / 4503599627370496"
    by (subst fl_scale_down [of _ 52]) (simp_all add: rne_def Let_def)
  show "fl (18014398509481983 / 9007199254740992) = 2"
    by (subst fl_scale_down [of _ 52]) (simp_all add: rne_def Let_def)
qed

subsection \<open>The start times of the repeats\<close>

text \<open>
  C2 (amended). For a song played with a loop window \<open>{ls, le}\<close>, \<open>ls < le\<close>, at tempo
  \<open>T\<close>: \<open>playSong\<close> returns, and in doubles \<open>loopLenSec\<close> is the rounded product of the
  rounded \<open>le - ls\<close> and the rounded \<open>60 / max(1, T)\<close>, positive and within
  \<open>7 / 2 ^ 53\<close> of \<open>(le - ls) * 60 / max(1, T)\<close> relative to it; \<open>loopBaseT\<close> is the rounded
  sum of \<open>tStart\<close> and the rounded \<open>le * beatSec\<close>. Repeat number \<open>i\<close> starts at
  \<open>loopBaseT + i * loopLenSec\<close> computed from the integer counter \<open>i\<close> with one rounded
  product and one rounded sum, never by adding \<open>loopLenSec\<close> to the start before: so
  for arbitrarily many iterations the start is within
  \<open>3 * (|loopBaseT| + i * loopLenSec) / 2 ^ 53\<close> of the exact \<open>loopBaseT + i * loopLenSec\<close>, an
  error that does not grow with the number of repeats scheduled before, and two
  successive starts differ by \<open>loopLenSec\<close> up to
  \<open>6 * (|loopBaseT| + (i + 1) * loopLenSec) / 2 ^ 53\<close>. From any counter \<open>j\<close> and for any
  horizon \<open>tMax\<close> the fill loop returns: it has scheduled, in order, the repeats from
  \<open>j\<close> up to the first one that starts after \<open>tMax\<close>, each at the start computed from
  its own number, and left the counter at that one.
\<close>

theorem loop_windows_integer_counter:
  assumes "(case so_loop opts of Some l \<Rightarrow> Some l | None \<Rightarrow> sg_loop sg) = Some (ls, le)" and "ls < le"
  shows "\<exists>sp e'. playSong sg opts h now e = Some (Some sp, e') \<and>
           sp_loopLenSec sp = fmul (fsub le ls) (fdiv 60 (max 1 (resolved_tempo sg opts))) \<and>
           \<bar>sp_loopLenSec sp - (le - ls) * (60 / max 1 (resolved_tempo sg opts))\<bar>
             \<le> 7 * ((le - ls) * (60 / max 1 (resolved_tempo sg opts))) / 2 ^ 53 \<and>
           sp_loopBaseT sp = fadd (case so_tStart opts of Some t \<Rightarrow> t | None \<Rightarrow> now)
                               (fmul le (fdiv 60 (max 1 (resolved_tempo sg opts)))) \<and>
           0 < sp_loopLenSec sp \<and> 1 \<le> nextLoopI sp \<and>
           (\<forall>i. loop_window_start sp i = fl (sp_loopBaseT sp + fl (real i * sp_loopLenSec sp)) \<and>
                \<bar>loop_window_start sp i - (sp_loopBaseT sp + real i * sp_loopLenSec sp)\<bar>
                  \<le> 3 * (\<bar>sp_loopBaseT sp\<bar> + real i * sp_loopLenSec sp) / 2 ^ 53 \<and>
                \<bar>loop_window_start sp (Suc i) - loop_window_start sp i - sp_loopLenSec sp\<bar>
                  \<le> 6 * (\<bar>sp_loopBaseT sp\<bar> + real (Suc i) * sp_loopLenSec sp) / 2 ^ 53) \<and>
           (\<forall>tMax j e1. \<exists>n.
              loop_fill sg tMax (sp\<lparr>nextLoopI := j\<rparr>) e1 =
                Some (sp\<lparr>nextLoopI := n\<rparr>,
                      fold (\<lambda>i. schedule_loop_window sg sp (loop_window_start sp i)) [j..<n] e1) \<and>
              j \<le> n \<and> (\<forall>i. j \<le> i \<and> i < n \<longrightarrow> loop_window_start sp i \<le> tMax) \<and>
              tMax < loop_window_start sp n)"
proof -
  obtain sp e' where ps: "playSong sg opts h now e = Some (Some sp, e')"
    and len: "sp_loopLenSec sp = fmul (fsub le ls) (fdiv 60 (max 1 (resolved_tempo sg opts)))"
    and base: "sp_loopBaseT sp = fadd (case so_tStart opts of Some t \<Rightarrow> t | None \<Rightarrow> now)
                               (fmul le (fdiv 60 (max 1 (resolved_tempo sg opts))))"
    and pos: "0 < sp_loopLenSec sp"
    and one: "1 \<le> nextLoopI sp"
    using playSong_loop [OF assms] by blast
  have nn: "0 \<le> sp_loopLenSec sp" using pos by simp
  have lerr: "\<bar>sp_loopLenSec sp - (le - ls) * (60 / max 1 (resolved_tempo sg opts))\<bar>
             \<le> 7 * ((le - ls) * (60 / max 1 (resolved_tempo sg opts))) / 2 ^ 53"
    unfolding len using assms(2) by (intro loop_length_error) simp_all
  have starts: "\<forall>i. loop_window_start sp i = fl (sp_loopBaseT sp + fl (real i * sp_loopLenSec sp)) \<and>
                \<bar>loop_window_start sp i - (sp_loopBaseT sp + real i * sp_loopLenSec sp)\<bar>
                  \<le> 3 * (\<bar>sp_loopBaseT sp\<bar> + real i * sp_loopLenSec sp) / 2 ^ 53 \<and>
                \<bar>loop_window_start sp (Suc i) - loop_window_start sp i - sp_loopLenSec sp\<bar>
                  \<le> 6 * (\<bar>sp_loopBaseT sp\<bar> + real (Suc i) * sp_loopLenSec sp) / 2 ^ 53"
    using loop_window_error [OF nn] loop_window_step_error [OF nn]
    by (simp add: loop_window_start_def fadd_def fmul_def)
  have fill: "\<forall>tMax j e1. \<exists>n.
              loop_fill sg tMax (sp\<lparr>nextLoopI := j\<rparr>) e1 =
                Some (sp\<lparr>nextLoopI := n\<rparr>,
                      fold (\<lambda>i. schedule_loop_window sg sp (loop_window_start sp i)) [j..<n] e1) \<and>
              j \<le> n \<and> (\<forall>i. j \<le> i \<and> i < n \<longrightarrow> loop_window_start sp i \<le> tMax) \<and>
              tMax < loop_window_start sp n"
    using loop_fill_from [OF pos] by blast
  show ?thesis
    by (intro exI [of _ sp] exI [of _ e'] conjI) (fact ps len lerr base pos one starts fill)+
qed

theorem loop_windows_integer_counter_witness:
  "(case playSong march_song plain_opts 7 0 demo_engine of
      Some (Some sp, e') \<Rightarrow>
        sp_loopLenSec sp = 2 \<and> sp_loopBaseT sp = 2 \<and> loop_window_start sp 10000 = 20002 \<and>
        map_option (\<lambda>r. nextLoopI (fst r)) (loop_fill march_song (61 / 10) (sp\<lparr>nextLoopI := 1\<rparr>) e')
          = Some 3
    | _ \<Rightarrow> False)"
proof -
  have l: "(case so_loop plain_opts of Some l \<Rightarrow> Some l | None \<Rightarrow> sg_loop march_song) = Some (0, 4)"
    by (simp add: plain_opts_def march_song_def)
  have lt: "(0::real) < 4" by simp
  have t: "resolved_tempo march_song plain_opts = 120"
    by (simp add: resolved_tempo_def plain_opts_def march_song_def)
  obtain sp e' where ps: "playSong march_song plain_opts 7 0 demo_engine = Some (Some sp, e')"
    and len: "sp_loopLenSec sp = fmul (fsub 4 0) (fdiv 60 (max 1 (resolved_tempo march_song plain_opts)))"
    and base: "sp_loopBaseT sp = fadd (case so_tStart plain_opts of Some t \<Rightarrow> t | None \<Rightarrow> 0)
                               (fmul 4 (fdiv 60 (max 1 (resolved_tempo march_song plain_opts))))"
    and st: "\<forall>i. loop_window_start sp i = fl (sp_loopBaseT sp + fl (real i * sp_loopLenSec sp)) \<and>
                \<bar>loop_window_start sp i - (sp_loopBaseT sp + real i * sp_loopLenSec sp)\<bar>
                  \<le> 3 * (\<bar>sp_loopBaseT sp\<bar> + real i * sp_loopLenSec sp) / 2 ^ 53 \<and>
                \<bar>loop_window_start sp (Suc i) - loop_window_start sp i - sp_loopLenSec sp\<bar>
                  \<le> 6 * (\<bar>sp_loopBaseT sp\<bar> + real (Suc i) * sp_loopLenSec sp) / 2 ^ 53"
    and fill: "\<forall>tMax j e1. \<exists>n.
              loop_fill march_song tMax (sp\<lparr>nextLoopI := j\<rparr>) e1 =
                Some (sp\<lparr>nextLoopI := n\<rparr>,
                      fold (\<lambda>i. schedule_loop_window march_song sp (loop_window_start sp i)) [j..<n] e1) \<and>
              j \<le> n \<and> (\<forall>i. j \<le> i \<and> i < n \<longrightarrow> loop_window_start sp i \<le> tMax) \<and>
              tMax < loop_window_start sp n"
    using loop_windows_integer_counter [OF l lt, of 7 0 demo_engine] by blast
  have v: "sp_loopLenSec sp = 2" "sp_loopBaseT sp = 2"
    using len base unfolding t
    by (simp_all add: plain_opts_def fmul_def fsub_def fdiv_def fadd_def fl_values)
  have s: "loop_window_start sp 1 = 4" "loop_window_start sp 2 = 6" "loop_window_start sp 3 = 8"
      "loop_window_start sp 10000 = 20002"
    using st by (simp_all add: v fl_values)
  obtain n where r: "loop_fill march_song (61 / 10) (sp\<lparr>nextLoopI := 1\<rparr>) e' =
                Some (sp\<lparr>nextLoopI := n\<rparr>,
                      fold (\<lambda>i. schedule_loop_window march_song sp (loop_window_start sp i)) [1..<n] e')"
    and n1: "1 \<le> n"
    and before: "\<forall>i. 1 \<le> i \<and> i < n \<longrightarrow> loop_window_start sp i \<le> 61 / 10"
    and after: "61 / 10 < loop_window_start sp n"
    using fill by blast
  have "\<not> 3 < n"
  proof
    assume "3 < n"
    then have "loop_window_start sp 3 \<le> 61 / 10" using before by simp
    then show False using s(3) by simp
  qed
  then consider "n = 1" | "n = 2" | "n = 3" using n1 by linarith
  then have n: "n = 3" using after s by cases simp_all
  have s10000: "loop_window_start sp 10000 = 20002" by (rule s(4))
  have r': "map_option (\<lambda>r. nextLoopI (fst r))
              (loop_fill march_song (61 / 10) (sp\<lparr>nextLoopI := 1\<rparr>) e') = Some 3"
    unfolding r n by simp
  show ?thesis unfolding ps option.case prod.case by (intro conjI v s10000 r')
qed

text \<open>
  C2 as stated fails in two ways. Below one beat per minute the tempo is raised to one:
  at tempo 1/2 with the window \<open>{0, 4}\<close> the loop length is 240 seconds, not
  \<open>4 * 60 / (1/2) = 480\<close>. And the doubles do not make the boundaries differ by exactly
  the loop length: at tempo 90 with the window \<open>{0, 1}\<close> from time 0 the loop length is
  the double \<open>6004799503160661 / 2 ^ 53\<close> next to \<open>2 / 3\<close>, the first repeat starts at twice
  that, the second at \<open>2\<close>, and the two starts differ by \<open>6004799503160662 / 2 ^ 53\<close>.
\<close>

theorem loop_boundary_rounding_counterexample:
  "(case playSong slow_song plain_opts 7 0 demo_engine of
      Some (Some sp, e') \<Rightarrow> sp_loopLenSec sp = 240 | _ \<Rightarrow> False) \<and>
   ((4 - 0) * 60 / (1 / 2) :: real) = 480 \<and>
   (case playSong brisk_song plain_opts 7 0 demo_engine of
      Some (Some sp, e') \<Rightarrow>
        sp_loopLenSec sp = 6004799503160661 / 2 ^ 53 \<and>
        loop_window_start sp 2 - loop_window_start sp 1 = 6004799503160662 / 2 ^ 53 \<and>
        loop_window_start sp 2 - loop_window_start sp 1 \<noteq> sp_loopLenSec sp
    | _ \<Rightarrow> False) \<and>
   ((1 - 0) * 60 / 90 :: real) \<noteq> 6004799503160661 / 2 ^ 53"
proof -
  have l1: "(case so_loop plain_opts of Some l \<Rightarrow> Some l | None \<Rightarrow> sg_loop slow_song) = Some (0, 4)"
    by (simp add: plain_opts_def slow_song_def)
  have t1: "resolved_tempo slow_song plain_opts = 1 / 2"
    by (simp add: resolved_tempo_def plain_opts_def slow_song_def)
  obtain sp1 e1 where ps1: "playSong slow_song plain_opts 7 0 demo_engine = Some (Some sp1, e1)"
    and len1: "sp_loopLenSec sp1 = fmul (fsub 4 0) (fdiv 60 (max 1 (resolved_tempo slow_song plain_opts)))"
    using playSong_loop [OF l1, of 7 0 demo_engine] by auto
  have v1: "sp_loopLenSec sp1 = 240"
    using len1 unfolding t1 by (simp add: fmul_def fsub_def fdiv_def fl_values)
  have l2: "(case so_loop plain_opts of Some l \<Rightarrow> Some l | None \<Rightarrow> sg_loop brisk_song) = Some (0, 1)"
    by (simp add: plain_opts_def brisk_song_def)
  have t2: "resolved_tempo brisk_song plain_opts = 90"
    by (simp add: resolved_tempo_def plain_opts_def brisk_song_def)
  obtain sp2 e2 where ps2: "playSong brisk_song plain_opts 7 0 demo_engine = Some (Some sp2, e2)"
    and len2: "sp_loopLenSec sp2 = fmul (fsub 1 0) (fdiv 60 (max 1 (resolved_tempo brisk_song plain_opts)))"
    and base2: "sp_loopBaseT sp2 = fadd (case so_tStart plain_opts of Some t \<Rightarrow> t | None \<Rightarrow> 0)
                               (fmul 1 (fdiv 60 (max 1 (resolved_tempo brisk_song plain_opts))))"
    using playSong_loop [OF l2, of 7 0 demo_engine] by auto
  have v2: "sp_loopLenSec sp2 = 6004799503160661 / 9007199254740992"
      "sp_loopBaseT sp2 = 6004799503160661 / 9007199254740992"
    using len2 base2 unfolding t2
    by (simp_all add: plain_opts_def fmul_def fsub_def fdiv_def fadd_def fl_values)
  have s1: "loop_window_start sp2 1 = 6004799503160661 / 4503599627370496"
    by (simp add: loop_window_start_def fadd_def fmul_def v2 fl_values)
  have s2: "loop_window_start sp2 2 = 2"
    by (simp add: loop_window_start_def fadd_def fmul_def v2 fl_values)
  have s1': "loop_window_start sp2 (Suc 0) = 6004799503160661 / 4503599627370496"
    using s1 by simp
  show ?thesis
    by (simp add: ps1 ps2 v1 v2 s1' s2)
qed

section \<open>Properties of the note envelope\<close>

subsection \<open>The times and levels of an envelope\<close>

lemma envelope_facts:
  fixes tone params t0
  defines "en \<equiv> note_envelope tone params t0"
  shows "e_t0 en = t0" and "0.0002 \<le> peak en" and "0.0002 \<le> susLevel en"
    and "e_t0 en \<le> tA2 en" and "tA2 en \<le> tD2 en"
    and "e_t0 en + 0.001 \<le> tOff2 en" and "tOff2 en + 0.001 \<le> tR2 en"
    and "tOff2 en = e_tOff en" and "tR2 en = e_tR en"
  by (simp_all add: en_def note_envelope_def Let_def clamp_def finite_or_def)

lemma timeline_normal:
  assumes "e_t0 en \<le> tA2 en" "tA2 en \<le> tD2 en" "tD2 en < tOff2 en" "tOff2 en \<le> tR2 en"
  shows "timeline (adsr_schedule en) =
     [SetValueAtTime 0.0001 (e_t0 en), ExponentialRampToValueAtTime (peak en) (tA2 en),
      ExponentialRampToValueAtTime (susLevel en) (tD2 en), SetValueAtTime (susLevel en) (tOff2 en),
      ExponentialRampToValueAtTime 0.0001 (tR2 en)]"
  using assms by (simp add: timeline_def adsr_schedule_def apply_call_def Let_def)

lemma timeline_early_attack:
  assumes "e_t0 en < tOff2 en" "tOff2 en \<le> tA2 en" "tA2 en \<le> tD2 en" "tOff2 en \<le> tR2 en"
  shows "timeline (adsr_schedule en) =
     [SetValueAtTime 0.0001 (e_t0 en), SetValueAtTime (release_level en) (tOff2 en),
      ExponentialRampToValueAtTime 0.0001 (tR2 en)]"
  using assms by (simp add: timeline_def adsr_schedule_def apply_call_def Let_def release_level_def)

lemma timeline_early_decay:
  assumes "e_t0 en \<le> tA2 en" "tA2 en < tOff2 en" "tOff2 en \<le> tD2 en" "tOff2 en \<le> tR2 en"
  shows "timeline (adsr_schedule en) =
     [SetValueAtTime 0.0001 (e_t0 en), ExponentialRampToValueAtTime (peak en) (tA2 en),
      SetValueAtTime (release_level en) (tOff2 en),
      ExponentialRampToValueAtTime 0.0001 (tR2 en)]"
  using assms by (simp add: timeline_def adsr_schedule_def apply_call_def Let_def release_level_def)

subsection \<open>Continuity of exponential ramps\<close>

lemma isCont_glue:
  fixes f g h :: "real \<Rightarrow> real"
  assumes ab: "a < T" "T < b"
    and L: "\<And>t. a < t \<Longrightarrow> t < T \<Longrightarrow> f t = g t"
    and R: "\<And>t. T \<le> t \<Longrightarrow> t < b \<Longrightarrow> f t = h t"
    and g: "isCont g T" and h: "isCont h T" and eq: "g T = h T"
  shows "isCont f T"
proof -
  have fT: "f T = h T" using R [of T] ab by simp
  have "(g \<longlongrightarrow> g T) (at_left T)"
    using g continuous_at_imp_continuous_at_within continuous_within by blast
  moreover have "eventually (\<lambda>t. f t = g t) (at_left T)"
    using eventually_at_left_real [OF ab(1)] by (rule eventually_mono) (simp add: L)
  ultimately have left: "(f \<longlongrightarrow> f T) (at_left T)"
    using tendsto_cong [of f g "at_left T" "g T"] by (simp add: fT eq)
  have "(h \<longlongrightarrow> h T) (at_right T)"
    using h continuous_at_imp_continuous_at_within continuous_within by blast
  moreover have "eventually (\<lambda>t. f t = h t) (at_right T)"
    using eventually_at_right_real [OF ab(2)] by (rule eventually_mono) (simp add: R)
  ultimately have right: "(f \<longlongrightarrow> f T) (at_right T)"
    using tendsto_cong [of f h "at_right T" "h T"] by (simp add: fT)
  show ?thesis
    unfolding isCont_def filterlim_at_split using left right by simp
qed

lemma isCont_exp_ramp:
  fixes V0 V1 T0 T1 :: real
  assumes "0 < V0" "0 < V1"
  shows "isCont (\<lambda>t. V0 * (V1 / V0) powr ((t - T0) / (T1 - T0))) T"
proof (cases "T1 = T0")
  case True
  then show ?thesis by simp
next
  case False
  then show ?thesis using assms by (intro continuous_intros) auto
qed

lemma exp_ramp_ends:
  fixes V0 V1 T0 T1 :: real
  assumes "0 < V0" "0 < V1" "T0 < T1"
  shows "V0 * (V1 / V0) powr ((T0 - T0) / (T1 - T0)) = V0"
    and "V0 * (V1 / V0) powr ((T1 - T0) / (T1 - T0)) = V1"
  using assms by simp_all

lemma exp_ramp_lower:
  fixes a b g p :: real
  assumes "0 < g" "g \<le> a" "g \<le> b" "0 \<le> p" "p \<le> 1"
  shows "g \<le> a * (b / a) powr p"
proof (cases "a \<le> b")
  case True
  then have "1 \<le> b / a" using assms by simp
  then have "1 \<le> (b / a) powr p" using assms(4) by (rule ge_one_powr_ge_zero)
  then have "a * 1 \<le> a * (b / a) powr p"
    using assms by (intro mult_left_mono) auto
  then have "a \<le> a * (b / a) powr p" by simp
  then show ?thesis by (rule order_trans [OF assms(2)])
next
  case False
  then have "0 \<le> b / a" "b / a \<le> 1" using assms by simp_all
  then have "(b / a) powr 1 \<le> (b / a) powr p"
    using assms(5) by (intro powr_mono') auto
  moreover have "(b / a) powr 1 = b / a" using \<open>0 \<le> b / a\<close> by (rule powr_one)
  ultimately have "b / a \<le> (b / a) powr p" by (simp only:)
  then have "a * (b / a) \<le> a * (b / a) powr p"
    using assms by (intro mult_left_mono) auto
  moreover have "a * (b / a) = b" using assms by simp
  ultimately have "b \<le> a * (b / a) powr p" by simp
  then show ?thesis by (rule order_trans [OF assms(3)])
qed

subsection \<open>The gain along the schedule\<close>

lemma release_level_ge:
  assumes "0.0002 \<le> susLevel en"
  shows "0.0001 \<le> release_level en"
proof (cases "tOff2 en \<le> tD2 en")
  case True
  then show ?thesis
    unfolding release_level_def by (simp only: if_True max.cobounded1)
next
  case False
  then show ?thesis
    using assms unfolding release_level_def by simp
qed

lemma release_level_attack:
  assumes "0.0002 \<le> peak en" "e_t0 en < tOff2 en" "tOff2 en \<le> tA2 en" "tA2 en \<le> tD2 en"
  shows "release_level en =
     0.0001 * (peak en / 0.0001) powr ((tOff2 en - e_t0 en) / (tA2 en - e_t0 en))"
proof -
  define p where "p = (tOff2 en - e_t0 en) / (tA2 en - e_t0 en)"
  have lt: "e_t0 en < tA2 en" using assms by simp
  have p01: "0 \<le> p" "p \<le> 1" using assms lt by (simp_all add: p_def)
  have e: "expAt 0.0001 0.0001 (peak en) (e_t0 en) (tA2 en) (tOff2 en) = 0.0001 * (peak en / 0.0001) powr p"
    using lt p01 assms(1) by (simp add: expAt_def Let_def p_def [symmetric] max_def min_def)
  have "(0.0001::real) \<le> 0.0001 * (peak en / 0.0001) powr p"
    using assms(1) p01 by (intro exp_ramp_lower) auto
  then have "max 0.0001 (0.0001 * (peak en / 0.0001) powr p) = 0.0001 * (peak en / 0.0001) powr p"
    by (simp add: max_def)
  then show ?thesis
    using assms e unfolding release_level_def p_def by simp
qed

lemma release_level_decay:
  assumes "0.0002 \<le> peak en" "0.0002 \<le> susLevel en" "tA2 en < tOff2 en" "tOff2 en \<le> tD2 en"
  shows "release_level en =
     peak en * (susLevel en / peak en) powr ((tOff2 en - tA2 en) / (tD2 en - tA2 en))"
proof -
  define p where "p = (tOff2 en - tA2 en) / (tD2 en - tA2 en)"
  have lt: "tA2 en < tD2 en" using assms by simp
  have p01: "0 \<le> p" "p \<le> 1" using assms lt by (simp_all add: p_def)
  have e: "expAt 0.0001 (peak en) (susLevel en) (tA2 en) (tD2 en) (tOff2 en)
      = peak en * (susLevel en / peak en) powr p"
    using lt p01 assms(1,2) by (simp add: expAt_def Let_def p_def [symmetric] max_def min_def)
  have "(0.0001::real) \<le> peak en * (susLevel en / peak en) powr p"
    using assms(1,2) p01 by (intro exp_ramp_lower) auto
  then have "max 0.0001 (peak en * (susLevel en / peak en) powr p) = peak en * (susLevel en / peak en) powr p"
    by (simp add: max_def)
  then show ?thesis
    using assms e unfolding release_level_def p_def by simp
qed

lemma timeline_tail:
  assumes "e_t0 en \<le> tA2 en" "tA2 en \<le> tD2 en" "e_t0 en < tOff2 en" "tOff2 en < tR2 en"
  shows "filter (\<lambda>c. tOff2 en \<le> ev_time c) (timeline (adsr_schedule en)) =
     [SetValueAtTime (release_level en) (tOff2 en), ExponentialRampToValueAtTime 0.0001 (tR2 en)]"
proof -
  consider "tD2 en < tOff2 en" | "tOff2 en \<le> tA2 en" | "tA2 en < tOff2 en" "tOff2 en \<le> tD2 en"
    by linarith
  then show ?thesis
  proof cases
    case 1
    then show ?thesis
      using assms by (simp add: timeline_normal release_level_def)
  next
    case 2
    then show ?thesis
      using assms by (simp add: timeline_early_attack)
  next
    case 3
    then show ?thesis
      using assms by (simp add: timeline_early_decay)
  qed
qed

lemma value_release:
  assumes "0.0002 \<le> susLevel en" "e_t0 en \<le> tA2 en" "tA2 en \<le> tD2 en" "e_t0 en < tOff2 en"
    "tOff2 en < tR2 en" "tOff2 en \<le> t"
  shows "param_value dflt (adsr_schedule en) t =
     (if t < tR2 en
      then release_level en * (0.0001 / release_level en) powr ((t - tOff2 en) / (tR2 en - tOff2 en))
      else 0.0001)"
proof -
  have pos: "0 < release_level en" using release_level_ge [OF assms(1)] by simp
  consider "tD2 en < tOff2 en" | "tOff2 en \<le> tA2 en" | "tA2 en < tOff2 en" "tOff2 en \<le> tD2 en"
    by linarith
  then show ?thesis
  proof cases
    case 1
    then have rl: "release_level en = susLevel en" by (simp add: release_level_def)
    show ?thesis
      using assms 1 pos unfolding rl
      by (simp add: param_value_def timeline_normal exp_interp_def)
  next
    case 2
    then show ?thesis
      using assms pos
      by (simp add: param_value_def timeline_early_attack exp_interp_def)
  next
    case 3
    then show ?thesis
      using assms pos
      by (simp add: param_value_def timeline_early_decay exp_interp_def)
  qed
qed

lemma value_normal:
  assumes "e_t0 en \<le> tA2 en" "tA2 en \<le> tD2 en" "tD2 en < tOff2 en" "tOff2 en < tR2 en"
    "0.0002 \<le> peak en" "0.0002 \<le> susLevel en" "e_t0 en \<le> t" "t < tOff2 en"
  shows "param_value dflt (adsr_schedule en) t =
     (if t < tA2 en then 0.0001 * (peak en / 0.0001) powr ((t - e_t0 en) / (tA2 en - e_t0 en))
      else if t < tD2 en then peak en * (susLevel en / peak en) powr ((t - tA2 en) / (tD2 en - tA2 en))
      else susLevel en)"
  using assms
  by (simp add: param_value_def timeline_normal exp_interp_def)

lemma isCont_release_end:
  assumes "0.0002 \<le> susLevel en" "e_t0 en \<le> tA2 en" "tA2 en \<le> tD2 en" "e_t0 en < tOff2 en"
    "tOff2 en < tR2 en"
  shows "isCont (param_value dflt (adsr_schedule en)) (tR2 en)"
proof (rule isCont_glue [where a = "tOff2 en" and b = "tR2 en + 1"
      and g = "\<lambda>t. release_level en * (0.0001 / release_level en) powr ((t - tOff2 en) / (tR2 en - tOff2 en))"
      and h = "\<lambda>t. 0.0001"])
  have pos: "0 < release_level en" using release_level_ge [OF assms(1)] by simp
  show "tOff2 en < tR2 en" by (rule assms(5))
  show "tR2 en < tR2 en + 1" by simp
  show "param_value dflt (adsr_schedule en) t =
      release_level en * (0.0001 / release_level en) powr ((t - tOff2 en) / (tR2 en - tOff2 en))"
    if "tOff2 en < t" "t < tR2 en" for t
    using value_release [OF assms, of t dflt] that by simp
  show "param_value dflt (adsr_schedule en) t = 0.0001" if "tR2 en \<le> t" "t < tR2 en + 1" for t
    using value_release [OF assms, of t dflt] that assms(5) by simp
  show "isCont (\<lambda>t. release_level en * (0.0001 / release_level en) powr ((t - tOff2 en) / (tR2 en - tOff2 en))) (tR2 en)"
    using pos by (intro isCont_exp_ramp) auto
  show "isCont (\<lambda>t. 0.0001 :: real) (tR2 en)" by simp
  show "release_level en * (0.0001 / release_level en) powr ((tR2 en - tOff2 en) / (tR2 en - tOff2 en)) = 0.0001"
    using pos assms(5) by simp
qed

lemma isCont_normal_off:
  assumes "0.0002 \<le> peak en" "0.0002 \<le> susLevel en" "e_t0 en \<le> tA2 en" "tA2 en \<le> tD2 en"
    "tD2 en < tOff2 en" "tOff2 en < tR2 en"
  shows "isCont (param_value dflt (adsr_schedule en)) (tOff2 en)"
proof (rule isCont_glue [where a = "tD2 en" and b = "tR2 en"
      and g = "\<lambda>t. susLevel en"
      and h = "\<lambda>t. susLevel en * (0.0001 / susLevel en) powr ((t - tOff2 en) / (tR2 en - tOff2 en))"])
  have rl: "release_level en = susLevel en" using assms(5) by (simp add: release_level_def)
  have t0: "e_t0 en < tOff2 en" using assms by linarith
  show "tD2 en < tOff2 en" by (rule assms(5))
  show "tOff2 en < tR2 en" by (rule assms(6))
  show "param_value dflt (adsr_schedule en) t = susLevel en" if "tD2 en < t" "t < tOff2 en" for t
    using value_normal [OF assms(3,4,5,6,1,2), of t dflt] that assms by simp
  show "param_value dflt (adsr_schedule en) t =
      susLevel en * (0.0001 / susLevel en) powr ((t - tOff2 en) / (tR2 en - tOff2 en))"
    if "tOff2 en \<le> t" "t < tR2 en" for t
    using value_release [OF assms(2,3,4) t0 assms(6), of t dflt] that by (simp add: rl)
  show "isCont (\<lambda>t. susLevel en) (tOff2 en)" by simp
  show "isCont (\<lambda>t. susLevel en * (0.0001 / susLevel en) powr ((t - tOff2 en) / (tR2 en - tOff2 en))) (tOff2 en)"
    using assms(2) by (intro isCont_exp_ramp) auto
  show "susLevel en = susLevel en * (0.0001 / susLevel en) powr ((tOff2 en - tOff2 en) / (tR2 en - tOff2 en))"
    using assms(2) by simp
qed

lemma isCont_normal_decay_end:
  assumes "0.0002 \<le> peak en" "0.0002 \<le> susLevel en" "e_t0 en \<le> tA2 en" "tA2 en < tD2 en"
    "tD2 en < tOff2 en" "tOff2 en < tR2 en"
  shows "isCont (param_value dflt (adsr_schedule en)) (tD2 en)"
proof (rule isCont_glue [where a = "tA2 en" and b = "tOff2 en"
      and g = "\<lambda>t. peak en * (susLevel en / peak en) powr ((t - tA2 en) / (tD2 en - tA2 en))"
      and h = "\<lambda>t. susLevel en"])
  have le: "tA2 en \<le> tD2 en" using assms(4) by simp
  show "tA2 en < tD2 en" by (rule assms(4))
  show "tD2 en < tOff2 en" by (rule assms(5))
  show "param_value dflt (adsr_schedule en) t =
      peak en * (susLevel en / peak en) powr ((t - tA2 en) / (tD2 en - tA2 en))"
    if "tA2 en < t" "t < tD2 en" for t
    using value_normal [OF assms(3) le assms(5,6,1,2), of t dflt] that assms by simp
  show "param_value dflt (adsr_schedule en) t = susLevel en" if "tD2 en \<le> t" "t < tOff2 en" for t
    using value_normal [OF assms(3) le assms(5,6,1,2), of t dflt] that assms by simp
  show "isCont (\<lambda>t. peak en * (susLevel en / peak en) powr ((t - tA2 en) / (tD2 en - tA2 en))) (tD2 en)"
    using assms(1,2) by (intro isCont_exp_ramp) auto
  show "isCont (\<lambda>t. susLevel en) (tD2 en)" by simp
  show "peak en * (susLevel en / peak en) powr ((tD2 en - tA2 en) / (tD2 en - tA2 en)) = susLevel en"
    using assms(1,2,4) by simp
qed

lemma isCont_normal_attack_end:
  assumes "0.0002 \<le> peak en" "0.0002 \<le> susLevel en" "e_t0 en < tA2 en" "tA2 en < tD2 en"
    "tD2 en < tOff2 en" "tOff2 en < tR2 en"
  shows "isCont (param_value dflt (adsr_schedule en)) (tA2 en)"
proof (rule isCont_glue [where a = "e_t0 en" and b = "tD2 en"
      and g = "\<lambda>t. 0.0001 * (peak en / 0.0001) powr ((t - e_t0 en) / (tA2 en - e_t0 en))"
      and h = "\<lambda>t. peak en * (susLevel en / peak en) powr ((t - tA2 en) / (tD2 en - tA2 en))"])
  have le: "e_t0 en \<le> tA2 en" "tA2 en \<le> tD2 en" using assms(3,4) by simp_all
  show "e_t0 en < tA2 en" by (rule assms(3))
  show "tA2 en < tD2 en" by (rule assms(4))
  show "param_value dflt (adsr_schedule en) t =
      0.0001 * (peak en / 0.0001) powr ((t - e_t0 en) / (tA2 en - e_t0 en))"
    if "e_t0 en < t" "t < tA2 en" for t
    using value_normal [OF le assms(5,6,1,2), of t dflt] that assms by simp
  show "param_value dflt (adsr_schedule en) t =
      peak en * (susLevel en / peak en) powr ((t - tA2 en) / (tD2 en - tA2 en))"
    if "tA2 en \<le> t" "t < tD2 en" for t
    using value_normal [OF le assms(5,6,1,2), of t dflt] that assms by simp
  show "isCont (\<lambda>t. 0.0001 * (peak en / 0.0001) powr ((t - e_t0 en) / (tA2 en - e_t0 en))) (tA2 en)"
    using assms(1) by (intro isCont_exp_ramp) auto
  show "isCont (\<lambda>t. peak en * (susLevel en / peak en) powr ((t - tA2 en) / (tD2 en - tA2 en))) (tA2 en)"
    using assms(1,2) by (intro isCont_exp_ramp) auto
  show "0.0001 * (peak en / 0.0001) powr ((tA2 en - e_t0 en) / (tA2 en - e_t0 en)) =
      peak en * (susLevel en / peak en) powr ((tA2 en - tA2 en) / (tD2 en - tA2 en))"
    using assms(1,2,3) by simp
qed

lemma playNote_envelope:
  assumes "playNote params now e = Inr (info, e')"
  shows "\<exists>tones tone. toneBank e = Some tones \<and> tones (p_toneId params) = Some tone \<and>
           gainCalls e' (voiceId info)
             = Some (adsr_schedule (note_envelope tone params (n_t0 info))) \<and>
           tOff info = e_tOff (note_envelope tone params (n_t0 info)) \<and>
           tR info = e_tR (note_envelope tone params (n_t0 info))"
proof -
  obtain tones tone b where b: "toneBank e = Some tones" "tones (p_toneId params) = Some tone"
      "buses e (if p_busKey params = [] then ''master'' else p_busKey params) = Some b"
    using assms by (auto simp: playNote_def Let_def split: option.splits)
  define t0 where "t0 = (case p_t0 params of Some t \<Rightarrow> t | None \<Rightarrow> now)"
  define bk where "bk = (if p_busKey params = [] then ''master'' else p_busKey params)"
  have r: "start_voice tone params bk t0 e = (info, e')"
    using assms b by (simp add: playNote_def Let_def t0_def bk_def)
  have "n_t0 (fst (start_voice tone params bk t0 e)) = t0"
      "tOff (fst (start_voice tone params bk t0 e)) = e_tOff (note_envelope tone params t0)"
      "tR (fst (start_voice tone params bk t0 e)) = e_tR (note_envelope tone params t0)"
    by (simp_all add: start_voice_def Let_def)
  then have t: "n_t0 info = t0" "tOff info = e_tOff (note_envelope tone params t0)"
      "tR info = e_tR (note_envelope tone params t0)"
    by (simp_all add: r)
  have "gainCalls (snd (start_voice tone params bk t0 e)) (voiceId (fst (start_voice tone params bk t0 e)))
      = Some (adsr_schedule (note_envelope tone params t0))"
    by (simp add: start_voice_def Let_def schedule_def split: option.splits)
  then have "gainCalls e' (voiceId info) = Some (adsr_schedule (note_envelope tone params t0))"
    by (simp add: r)
  then show ?thesis using b t by blast
qed

lemma snap_envelope:
  "note_envelope snap_tone long_note 0 =
     \<lparr>e_t0 = 0, peak = 4 / 5, susLevel = 1 / 5000, tA2 = 1 / 100, tD2 = 1 / 100, tOff2 = 1,
      tR2 = 11 / 10, e_tOff = 1, e_tR = 11 / 10\<rparr>"
  by (simp add: note_envelope_def snap_tone_def long_note_def numOr_def clamp_def finite_or_def Let_def)

lemma quick_envelope:
  "note_envelope lead_tone quick_note 0 =
     \<lparr>e_t0 = 0, peak = 4 / 5, susLevel = 14 / 25, tA2 = 1 / 200, tD2 = 7 / 200, tOff2 = 1 / 500,
      tR2 = 31 / 500, e_tOff = 1 / 500, e_tR = 31 / 500\<rparr>"
  by (simp add: note_envelope_def lead_tone_def quick_note_def default_env_def numOr_def clamp_def
      finite_or_def Let_def)

lemma mid_envelope:
  "note_envelope lead_tone mid_note 0 =
     \<lparr>e_t0 = 0, peak = 4 / 5, susLevel = 14 / 25, tA2 = 1 / 200, tD2 = 7 / 200, tOff2 = 1 / 50,
      tR2 = 2 / 25, e_tOff = 1 / 50, e_tR = 2 / 25\<rparr>"
  by (simp add: note_envelope_def lead_tone_def mid_note_def default_env_def numOr_def clamp_def
      finite_or_def Let_def)

lemma value_early_attack:
  assumes "e_t0 en < tOff2 en" "tOff2 en \<le> tA2 en" "tA2 en \<le> tD2 en" "tOff2 en \<le> tR2 en"
    "e_t0 en \<le> t" "t < tOff2 en"
  shows "param_value dflt (adsr_schedule en) t = 0.0001"
  using assms by (simp add: param_value_def timeline_early_attack)

lemma value_early_decay:
  assumes "e_t0 en \<le> tA2 en" "tA2 en < tOff2 en" "tOff2 en \<le> tD2 en" "tOff2 en \<le> tR2 en"
    "tA2 en \<le> t" "t < tOff2 en"
  shows "param_value dflt (adsr_schedule en) t = peak en"
  using assms by (simp add: param_value_def timeline_early_decay)

lemma not_isCont_jump:
  fixes f :: "real \<Rightarrow> real"
  assumes "a < x" and held: "\<And>t. a \<le> t \<Longrightarrow> t < x \<Longrightarrow> f t = c" and "f x \<noteq> c"
  shows "\<not> isCont f x"
proof
  assume "isCont f x"
  then have "f \<midarrow>x\<rightarrow> f x" by (simp add: isCont_def)
  moreover have "0 < \<bar>f x - c\<bar>" using assms(3) by simp
  ultimately obtain s where s: "0 < s"
    and cl: "\<And>t. t \<noteq> x \<and> norm (t - x) < s \<Longrightarrow> norm (f t - f x) < \<bar>f x - c\<bar>"
    unfolding LIM_eq by blast
  define t where "t = x - min (s / 2) ((x - a) / 2)"
  define d where "d = min (s / 2) ((x - a) / 2)"
  have d0: "0 < d" using s assms(1) by (simp add: d_def)
  have d1: "d \<le> s / 2" unfolding d_def by (rule min.cobounded1)
  have d2: "d \<le> (x - a) / 2" unfolding d_def by (rule min.cobounded2)
  note d = d0 d1 d2
  have tx: "t = x - d" by (simp add: t_def d_def)
  have ta: "a \<le> t" using d assms(1) unfolding tx by argo
  have tb: "t < x" using d unfolding tx by linarith
  note t1 = ta tb
  have "norm (t - x) < s" using d s unfolding tx by simp
  then have "norm (f t - f x) < \<bar>f x - c\<bar>" using cl [of t] t1 by simp
  then show False unfolding held [OF t1] by simp
qed

lemma early_attack_release_jump:
  assumes "tOff2 (note_envelope tone params t0) \<le> tA2 (note_envelope tone params t0)"
  shows "\<not> isCont (param_value dflt (adsr_schedule (note_envelope tone params t0)))
           (tOff2 (note_envelope tone params t0))"
proof -
  define en where "en = note_envelope tone params t0"
  note f = envelope_facts [of tone params t0, folded en_def]
  have pk: "0.0002 \<le> peak en" and su: "0.0002 \<le> susLevel en"
    and o1: "e_t0 en \<le> tA2 en" and o2: "tA2 en \<le> tD2 en"
    using f(2-5) by simp_all
  have o3: "e_t0 en < tOff2 en" using f(6) by simp
  have o4: "tOff2 en < tR2 en" using f(7) by simp
  have early: "tOff2 en \<le> tA2 en" using assms by (simp add: en_def)
  define p where "p = (tOff2 en - e_t0 en) / (tA2 en - e_t0 en)"
  have p0: "0 < p" using o3 early by (simp add: p_def)
  have "(1::real) < peak en / 0.0001" using pk by simp
  then have "(peak en / 0.0001) powr 0 < (peak en / 0.0001) powr p"
    using p0 by (intro powr_less_mono) simp_all
  moreover have "(peak en / 0.0001) powr 0 = 1" using pk by simp
  ultimately have gt: "1 < (peak en / 0.0001) powr p" by (simp only:)
  have lv: "release_level en = 0.0001 * (peak en / 0.0001) powr p"
    unfolding p_def by (rule release_level_attack [OF pk o3 early o2])
  have "param_value dflt (adsr_schedule en) (tOff2 en) = release_level en"
    using value_release [OF su o1 o2 o3 o4, of "tOff2 en" dflt] o4 by simp
  then have at: "param_value dflt (adsr_schedule en) (tOff2 en) = 0.0001 * (peak en / 0.0001) powr p"
    by (simp add: lv)
  have ne: "param_value dflt (adsr_schedule en) (tOff2 en) \<noteq> 0.0001"
    using at gt by simp
  have "\<not> isCont (param_value dflt (adsr_schedule en)) (tOff2 en)"
  proof (rule not_isCont_jump [of "e_t0 en" _ _ "0.0001"])
    show "e_t0 en < tOff2 en" by (rule o3)
    show "param_value dflt (adsr_schedule en) t = 0.0001" if "e_t0 en \<le> t" "t < tOff2 en" for t
      using o4 by (intro value_early_attack [OF o3 early o2 _ that]) simp
    show "param_value dflt (adsr_schedule en) (tOff2 en) \<noteq> 0.0001" by (rule ne)
  qed
  then show ?thesis by (simp add: en_def)
qed

subsection \<open>The envelope of a started note\<close>

text \<open>
  What holds of every voice \<open>playNote\<close> starts, with \<open>en\<close> the envelope computed from the
  tone and the parameters and \<open>L\<close> the level the release starts from: the gain of the
  voice gets exactly the calls of \<open>adsr_schedule en\<close>; the times are ordered
  \<open>t0 \<le> tA2 \<le> tD2\<close>, \<open>t0 < tOff2 < tR2\<close>. When the note-off time is at or before the end
  of the decay, \<open>L\<close> is the exponential interpolation \<open>v0 * (v1 / v0) ^ p\<close> along the attack,
  from the floor \<open>0.0001\<close> to the peak, or along the decay, from the peak to the sustain
  level, with \<open>p\<close> the progress of the note-off time on that ramp, and the schedule cancels
  the automation from the note-off time on; otherwise \<open>L\<close> is the sustain level. In every
  case \<open>L\<close> is at least the floor, the only events left at or after the note-off time are
  the set of \<open>L\<close> and the release ramp to the floor, the gain at the note-off time is \<open>L\<close>,
  it moves exponentially from \<open>L\<close> to the floor until the release end and stays at the
  floor \<open>0.0001\<close>, never zero, from then on, and it is continuous at the release end. When
  the attack and the decay take time and the note-off comes after the decay,
  that is \<open>t0 < tA2 < tD2 < tOff2\<close>, the gain is continuous at the end of the attack, at
  the end of the decay and at the note-off time.
\<close>

lemma envelope_of_started_note:
  assumes "playNote params now e = Inr (info, e')"
  shows "\<exists>tones tone. toneBank e = Some tones \<and> tones (p_toneId params) = Some tone \<and>
     (let en = note_envelope tone params (n_t0 info);
          gain = param_value dflt (adsr_schedule en);
          L = release_level en
      in gainCalls e' (voiceId info) = Some (adsr_schedule en) \<and>
         e_t0 en = n_t0 info \<and> tOff2 en = tOff info \<and> tR2 en = tR info \<and>
         e_t0 en \<le> tA2 en \<and> tA2 en \<le> tD2 en \<and> e_t0 en < tOff2 en \<and> tOff2 en < tR2 en \<and>
         0.0001 \<le> L \<and>
         (tOff2 en \<le> tA2 en \<longrightarrow>
            L = 0.0001 * (peak en / 0.0001) powr ((tOff2 en - e_t0 en) / (tA2 en - e_t0 en))) \<and>
         (tA2 en < tOff2 en \<and> tOff2 en \<le> tD2 en \<longrightarrow>
            L = peak en * (susLevel en / peak en) powr ((tOff2 en - tA2 en) / (tD2 en - tA2 en))) \<and>
         (tD2 en < tOff2 en \<longrightarrow> L = susLevel en) \<and>
         (tOff2 en \<le> tD2 en \<longrightarrow> CancelScheduledValues (tOff2 en) \<in> set (adsr_schedule en)) \<and>
         filter (\<lambda>c. tOff2 en \<le> ev_time c) (timeline (adsr_schedule en))
           = [SetValueAtTime L (tOff2 en), ExponentialRampToValueAtTime 0.0001 (tR2 en)] \<and>
         gain (tOff2 en) = L \<and>
         (\<forall>t. tOff2 en \<le> t \<and> t \<le> tR2 en \<longrightarrow>
              gain t = L * (0.0001 / L) powr ((t - tOff2 en) / (tR2 en - tOff2 en))) \<and>
         (\<forall>t. tR2 en \<le> t \<longrightarrow> gain t = 0.0001) \<and>
         gain (tR2 en) \<noteq> 0 \<and>
         isCont gain (tR2 en) \<and>
         (e_t0 en < tA2 en \<and> tA2 en < tD2 en \<and> tD2 en < tOff2 en \<longrightarrow>
            isCont gain (tA2 en) \<and> isCont gain (tD2 en) \<and> isCont gain (tOff2 en)))"
proof -
  obtain tones tone where bank: "toneBank e = Some tones" "tones (p_toneId params) = Some tone"
    and calls: "gainCalls e' (voiceId info) = Some (adsr_schedule (note_envelope tone params (n_t0 info)))"
    and off: "tOff info = e_tOff (note_envelope tone params (n_t0 info))"
    and rel: "tR info = e_tR (note_envelope tone params (n_t0 info))"
    using playNote_envelope [OF assms] by blast
  define en where "en = note_envelope tone params (n_t0 info)"
  define gain where "gain = param_value dflt (adsr_schedule en)"
  define L where "L = release_level en"
  note f = envelope_facts [of tone params "n_t0 info", folded en_def]
  have pk: "0.0002 \<le> peak en" and su: "0.0002 \<le> susLevel en"
    and o1: "e_t0 en \<le> tA2 en" and o2: "tA2 en \<le> tD2 en"
    using f(2-5) by simp_all
  have o3: "e_t0 en < tOff2 en" using f(6) by simp
  have o4: "tOff2 en < tR2 en" using f(7) by simp
  have c1: "gainCalls e' (voiceId info) = Some (adsr_schedule en)"
    using calls by (simp add: en_def)
  have c2: "e_t0 en = n_t0 info" "tOff2 en = tOff info" "tR2 en = tR info"
    using f(1,8,9) off rel by (simp_all add: en_def)
  have c3: "0.0001 \<le> L" unfolding L_def by (rule release_level_ge [OF su])
  have c4: "tOff2 en \<le> tA2 en \<longrightarrow>
      L = 0.0001 * (peak en / 0.0001) powr ((tOff2 en - e_t0 en) / (tA2 en - e_t0 en))"
    unfolding L_def using release_level_attack [OF pk o3 _ o2] by blast
  have c5: "tA2 en < tOff2 en \<and> tOff2 en \<le> tD2 en \<longrightarrow>
      L = peak en * (susLevel en / peak en) powr ((tOff2 en - tA2 en) / (tD2 en - tA2 en))"
    unfolding L_def using release_level_decay [OF pk su] by blast
  have c6: "tD2 en < tOff2 en \<longrightarrow> L = susLevel en"
    by (simp add: L_def release_level_def)
  have c7: "tOff2 en \<le> tD2 en \<longrightarrow> CancelScheduledValues (tOff2 en) \<in> set (adsr_schedule en)"
    by (simp add: adsr_schedule_def Let_def)
  have c8: "filter (\<lambda>c. tOff2 en \<le> ev_time c) (timeline (adsr_schedule en))
      = [SetValueAtTime L (tOff2 en), ExponentialRampToValueAtTime 0.0001 (tR2 en)]"
    unfolding L_def by (rule timeline_tail [OF o1 o2 o3 o4])
  have Lpos: "0 < L" using c3 by simp
  have v: "gain t = (if t < tR2 en
      then L * (0.0001 / L) powr ((t - tOff2 en) / (tR2 en - tOff2 en)) else 0.0001)"
    if "tOff2 en \<le> t" for t
    unfolding gain_def L_def by (rule value_release [OF su o1 o2 o3 o4 that])
  have c9: "gain (tOff2 en) = L"
    using v [of "tOff2 en"] o4 Lpos by simp
  have c10: "\<forall>t. tOff2 en \<le> t \<and> t \<le> tR2 en \<longrightarrow>
      gain t = L * (0.0001 / L) powr ((t - tOff2 en) / (tR2 en - tOff2 en))"
  proof (intro allI impI)
    fix t assume t: "tOff2 en \<le> t \<and> t \<le> tR2 en"
    show "gain t = L * (0.0001 / L) powr ((t - tOff2 en) / (tR2 en - tOff2 en))"
    proof (cases "t < tR2 en")
      case True
      then show ?thesis using v [of t] t by simp
    next
      case False
      then have "t = tR2 en" using t by simp
      then show ?thesis using v [of t] t o4 Lpos by simp
    qed
  qed
  have c11: "\<forall>t. tR2 en \<le> t \<longrightarrow> gain t = 0.0001"
    using v o4 by auto
  have "gain (tR2 en) = 0.0001" using c11 by blast
  then have c12: "gain (tR2 en) \<noteq> 0" by simp
  have c13: "isCont gain (tR2 en)"
    unfolding gain_def by (rule isCont_release_end [OF su o1 o2 o3 o4])
  have c14: "e_t0 en < tA2 en \<and> tA2 en < tD2 en \<and> tD2 en < tOff2 en \<longrightarrow>
      isCont gain (tA2 en) \<and> isCont gain (tD2 en) \<and> isCont gain (tOff2 en)"
    unfolding gain_def
    using isCont_normal_attack_end [OF pk su _ _ _ o4, of dflt]
      isCont_normal_decay_end [OF pk su o1 _ _ o4, of dflt]
      isCont_normal_off [OF pk su o1 o2 _ o4, of dflt]
    by blast
  have all: "gainCalls e' (voiceId info) = Some (adsr_schedule en) \<and>
         e_t0 en = n_t0 info \<and> tOff2 en = tOff info \<and> tR2 en = tR info \<and>
         e_t0 en \<le> tA2 en \<and> tA2 en \<le> tD2 en \<and> e_t0 en < tOff2 en \<and> tOff2 en < tR2 en \<and>
         0.0001 \<le> L \<and>
         (tOff2 en \<le> tA2 en \<longrightarrow>
            L = 0.0001 * (peak en / 0.0001) powr ((tOff2 en - e_t0 en) / (tA2 en - e_t0 en))) \<and>
         (tA2 en < tOff2 en \<and> tOff2 en \<le> tD2 en \<longrightarrow>
            L = peak en * (susLevel en / peak en) powr ((tOff2 en - tA2 en) / (tD2 en - tA2 en))) \<and>
         (tD2 en < tOff2 en \<longrightarrow> L = susLevel en) \<and>
         (tOff2 en \<le> tD2 en \<longrightarrow> CancelScheduledValues (tOff2 en) \<in> set (adsr_schedule en)) \<and>
         filter (\<lambda>c. tOff2 en \<le> ev_time c) (timeline (adsr_schedule en))
           = [SetValueAtTime L (tOff2 en), ExponentialRampToValueAtTime 0.0001 (tR2 en)] \<and>
         gain (tOff2 en) = L \<and>
         (\<forall>t. tOff2 en \<le> t \<and> t \<le> tR2 en \<longrightarrow>
              gain t = L * (0.0001 / L) powr ((t - tOff2 en) / (tR2 en - tOff2 en))) \<and>
         (\<forall>t. tR2 en \<le> t \<longrightarrow> gain t = 0.0001) \<and>
         gain (tR2 en) \<noteq> 0 \<and>
         isCont gain (tR2 en) \<and>
         (e_t0 en < tA2 en \<and> tA2 en < tD2 en \<and> tD2 en < tOff2 en \<longrightarrow>
            isCont gain (tA2 en) \<and> isCont gain (tD2 en) \<and> isCont gain (tOff2 en))"
    by (intro conjI) (fact c1 c2 o1 o2 o3 o4 c3 c4 c5 c6 c7 c8 c9 c10 c11 c12 c13 c14)+
  have "let en = note_envelope tone params (n_t0 info);
          gain = param_value dflt (adsr_schedule en);
          L = release_level en
      in gainCalls e' (voiceId info) = Some (adsr_schedule en) \<and>
         e_t0 en = n_t0 info \<and> tOff2 en = tOff info \<and> tR2 en = tR info \<and>
         e_t0 en \<le> tA2 en \<and> tA2 en \<le> tD2 en \<and> e_t0 en < tOff2 en \<and> tOff2 en < tR2 en \<and>
         0.0001 \<le> L \<and>
         (tOff2 en \<le> tA2 en \<longrightarrow>
            L = 0.0001 * (peak en / 0.0001) powr ((tOff2 en - e_t0 en) / (tA2 en - e_t0 en))) \<and>
         (tA2 en < tOff2 en \<and> tOff2 en \<le> tD2 en \<longrightarrow>
            L = peak en * (susLevel en / peak en) powr ((tOff2 en - tA2 en) / (tD2 en - tA2 en))) \<and>
         (tD2 en < tOff2 en \<longrightarrow> L = susLevel en) \<and>
         (tOff2 en \<le> tD2 en \<longrightarrow> CancelScheduledValues (tOff2 en) \<in> set (adsr_schedule en)) \<and>
         filter (\<lambda>c. tOff2 en \<le> ev_time c) (timeline (adsr_schedule en))
           = [SetValueAtTime L (tOff2 en), ExponentialRampToValueAtTime 0.0001 (tR2 en)] \<and>
         gain (tOff2 en) = L \<and>
         (\<forall>t. tOff2 en \<le> t \<and> t \<le> tR2 en \<longrightarrow>
              gain t = L * (0.0001 / L) powr ((t - tOff2 en) / (tR2 en - tOff2 en))) \<and>
         (\<forall>t. tR2 en \<le> t \<longrightarrow> gain t = 0.0001) \<and>
         gain (tR2 en) \<noteq> 0 \<and>
         isCont gain (tR2 en) \<and>
         (e_t0 en < tA2 en \<and> tA2 en < tD2 en \<and> tD2 en < tOff2 en \<longrightarrow>
            isCont gain (tA2 en) \<and> isCont gain (tD2 en) \<and> isCont gain (tOff2 en))"
    unfolding Let_def en_def [symmetric] gain_def [symmetric] L_def [symmetric] by (rule all)
  with bank show ?thesis by blast
qed

text \<open>
  A decay of zero seconds passes \<open>clamp(env.decay, 0, 4)\<close>; the ramp to the peak and the
  ramp to the sustain level then end at the same time. For attack \<open>0.01\<close>, decay \<open>0\<close>,
  sustain \<open>0\<close> and a note of one second from time \<open>0\<close>, the gain climbs towards the peak
  \<open>0.8\<close> before \<open>0.01\<close> and is the sustain level \<open>0.0002\<close> at \<open>0.01\<close>.
\<close>

lemma zero_decay_gain_jump:
  "gainCalls (snd (projr (playNote long_note 0 snap_engine))) 1
     = Some (adsr_schedule (note_envelope snap_tone long_note 0)) \<and>
   tA2 (note_envelope snap_tone long_note 0) = 1 / 100 \<and>
   \<not> isCont (param_value 1 (adsr_schedule (note_envelope snap_tone long_note 0))) (1 / 100)"
proof -
  define en where "en = note_envelope snap_tone long_note 0"
  define f where "f = param_value 1 (adsr_schedule en)"
  have calls: "gainCalls (snd (projr (playNote long_note 0 snap_engine))) 1 = Some (adsr_schedule en)"
    by (simp add: playNote_def snap_engine_def new_engine_def long_note_def start_voice_def
        schedule_def Let_def en_def snap_tone_def)
  have v: "e_t0 en = 0" "peak en = 4 / 5" "susLevel en = 1 / 5000" "tA2 en = 1 / 100"
      "tD2 en = 1 / 100" "tOff2 en = 1" "tR2 en = 11 / 10"
    by (simp_all add: en_def snap_envelope)
  have val: "f t = (if t < 1 / 100 then 0.0001 * (4 / 5 / 0.0001) powr ((t - 0) / (1 / 100 - 0))
      else 1 / 5000)" if "0 \<le> t" "t < 1" for t
  proof -
    have "param_value 1 (adsr_schedule en) t =
     (if t < tA2 en then 0.0001 * (peak en / 0.0001) powr ((t - e_t0 en) / (tA2 en - e_t0 en))
      else if t < tD2 en then peak en * (susLevel en / peak en) powr ((t - tA2 en) / (tD2 en - tA2 en))
      else susLevel en)"
      by (rule value_normal) (simp_all add: v that)
    then show ?thesis by (simp add: f_def v)
  qed
  have at: "f (1 / 100) = 1 / 5000" using val [of "1 / 100"] by simp
  have big: "1 / 125 \<le> f t" if "1 / 200 \<le> t" "t < 1 / 100" for t
  proof -
    have ft: "f t = 0.0001 * 8000 powr (t * 100)"
      using val [of t] that by simp
    have "(80::real) \<le> sqrt 8000"
      by (rule real_le_rsqrt) simp
    also have "\<dots> = 8000 powr (1 / 2)" by (simp add: powr_half_sqrt)
    also have "\<dots> \<le> 8000 powr (t * 100)"
      using that by (intro powr_mono) simp_all
    finally have "80 \<le> 8000 powr (t * 100)" .
    then show ?thesis unfolding ft by simp
  qed
  have "\<not> isCont f (1 / 100)"
  proof
    assume "isCont f (1 / 100)"
    then have "f \<midarrow>1 / 100\<rightarrow> f (1 / 100)" by (simp add: isCont_def)
    then obtain s where s: "0 < s"
      and cl: "\<And>x. x \<noteq> 1 / 100 \<and> norm (x - 1 / 100) < s \<Longrightarrow> norm (f x - f (1 / 100)) < 1 / 1000"
      unfolding LIM_eq by (metis zero_less_divide_1_iff zero_less_numeral)
    define x where "x = 1 / 100 - min (s / 2) (1 / 200)"
    have x1: "1 / 200 \<le> x" "x < 1 / 100" using s by (simp_all add: x_def min_def)
    have "norm (x - 1 / 100) < s" using s by (simp add: x_def min_def)
    then have "norm (f x - f (1 / 100)) < 1 / 1000" using cl [of x] x1 by simp
    moreover have "1 / 125 \<le> f x" by (rule big [OF x1])
    ultimately show False by (simp add: at)
  qed
  then show ?thesis
    using calls v(4) unfolding f_def en_def by simp
qed

subsection \<open>Release during the attack or the decay\<close>

text \<open>
  C1. The claim has the gain continuous at every segment boundary, also when the note
  is released during the attack or the decay, and \<open>playNote\<close> aims at that: it computes
  the level the ramp in progress would have reached at the note-off time \<open>tOff2\<close> and
  starts the release from it. But \<open>cancelScheduledValues(tOff2)\<close> removes the ramp in
  progress, whose end lies at or after \<open>tOff2\<close>, so on the timeline of the backend the
  gain keeps the value of the event before, the floor \<open>0.0001\<close> during the attack and the
  peak during the decay, and jumps to the computed level at \<open>tOff2\<close>. With the default
  envelope, attack \<open>0.005\<close>, decay \<open>0.03\<close>, sustain \<open>0.7\<close>, and the default velocity: the
  gain of a note of \<open>0.002\<close> seconds from time \<open>0\<close> is \<open>0.0001\<close> at \<open>0.001\<close> and
  \<open>0.0001 * 8000 ^ 0.4\<close> at \<open>0.002\<close>; the gain of a note of \<open>0.02\<close> seconds is \<open>0.8\<close> at
  \<open>0.015\<close> and \<open>0.8 * 0.7 ^ 0.5\<close> at \<open>0.02\<close>. In both the gain is not continuous at the
  note-off time. By \<open>early_attack_release_jump\<close> the same holds of every note released
  during its attack.
\<close>

theorem early_release_gain_jump:
  "param_value 1 (the (gainCalls (snd (projr (playNote quick_note 0 demo_engine))) 1)) (1 / 1000)
     = 1 / 10000 \<and>
   param_value 1 (the (gainCalls (snd (projr (playNote quick_note 0 demo_engine))) 1)) (1 / 500)
     = 1 / 10000 * 8000 powr (2 / 5) \<and>
   \<not> isCont (param_value 1 (the (gainCalls (snd (projr (playNote quick_note 0 demo_engine))) 1)))
       (1 / 500) \<and>
   param_value 1 (the (gainCalls (snd (projr (playNote mid_note 0 demo_engine))) 1)) (3 / 200)
     = 4 / 5 \<and>
   param_value 1 (the (gainCalls (snd (projr (playNote mid_note 0 demo_engine))) 1)) (1 / 50)
     = 4 / 5 * (7 / 10) powr (1 / 2) \<and>
   \<not> isCont (param_value 1 (the (gainCalls (snd (projr (playNote mid_note 0 demo_engine))) 1)))
       (1 / 50)"
proof -
  define eq where "eq = note_envelope lead_tone quick_note 0"
  define em where "em = note_envelope lead_tone mid_note 0"
  define gq where "gq = param_value 1 (adsr_schedule eq)"
  define gm where "gm = param_value 1 (adsr_schedule em)"
  have cq: "the (gainCalls (snd (projr (playNote quick_note 0 demo_engine))) 1) = adsr_schedule eq"
    by (simp add: playNote_def demo_engine_def new_engine_def quick_note_def start_voice_def
        schedule_def Let_def eq_def lead_tone_def)
  have cm: "the (gainCalls (snd (projr (playNote mid_note 0 demo_engine))) 1) = adsr_schedule em"
    by (simp add: playNote_def demo_engine_def new_engine_def mid_note_def start_voice_def
        schedule_def Let_def em_def lead_tone_def)
  have vq: "e_t0 eq = 0" "peak eq = 4 / 5" "susLevel eq = 14 / 25" "tA2 eq = 1 / 200"
      "tD2 eq = 7 / 200" "tOff2 eq = 1 / 500" "tR2 eq = 31 / 500"
    by (simp_all add: eq_def quick_envelope)
  have vm: "e_t0 em = 0" "peak em = 4 / 5" "susLevel em = 14 / 25" "tA2 em = 1 / 200"
      "tD2 em = 7 / 200" "tOff2 em = 1 / 50" "tR2 em = 2 / 25"
    by (simp_all add: em_def mid_envelope)
  have q_before: "gq t = 1 / 10000" if "0 \<le> t" "t < 1 / 500" for t
    unfolding gq_def using value_early_attack [of eq t 1] that by (simp add: vq)
  have lq: "release_level eq = 1 / 10000 * 8000 powr (2 / 5)"
    using release_level_attack [of eq] by (simp add: vq)
  have q_at: "gq (1 / 500) = 1 / 10000 * 8000 powr (2 / 5)"
    unfolding gq_def using value_release [of eq "1 / 500" 1] by (simp add: vq lq)
  have "(8000::real) powr 0 < 8000 powr (2 / 5)"
    by (rule powr_less_mono) simp_all
  then have "(1::real) < 8000 powr (2 / 5)" by simp
  then have q_ne: "gq (1 / 500) \<noteq> 1 / 10000" using q_at by linarith
  have q_jump: "\<not> isCont gq (1 / 500)"
  proof (rule not_isCont_jump [of 0 _ _ "1 / 10000"])
    show "(0::real) < 1 / 500" by simp
    show "gq t = 1 / 10000" if "0 \<le> t" "t < 1 / 500" for t by (rule q_before [OF that])
    show "gq (1 / 500) \<noteq> 1 / 10000" by (rule q_ne)
  qed
  have m_before: "gm t = 4 / 5" if "1 / 200 \<le> t" "t < 1 / 50" for t
    unfolding gm_def using value_early_decay [of em t 1] that by (simp add: vm)
  have lm: "release_level em = 4 / 5 * (7 / 10) powr (1 / 2)"
    using release_level_decay [of em] by (simp add: vm)
  have m_at: "gm (1 / 50) = 4 / 5 * (7 / 10) powr (1 / 2)"
    unfolding gm_def using value_release [of em "1 / 50" 1] by (simp add: vm lm)
  have "(7 / 10 :: real) powr (1 / 2) < 1"
    by (simp add: powr_half_sqrt real_sqrt_lt_1_iff)
  then have m_ne: "gm (1 / 50) \<noteq> 4 / 5" using m_at by linarith
  have m_jump: "\<not> isCont gm (1 / 50)"
  proof (rule not_isCont_jump [of "1 / 200" _ _ "4 / 5"])
    show "(1 / 200 :: real) < 1 / 50" by simp
    show "gm t = 4 / 5" if "1 / 200 \<le> t" "t < 1 / 50" for t by (rule m_before [OF that])
    show "gm (1 / 50) \<noteq> 4 / 5" by (rule m_ne)
  qed
  show ?thesis
    unfolding cq cm gq_def [symmetric] gm_def [symmetric]
    using q_before [of "1 / 1000"] q_at q_jump m_before [of "3 / 200"] m_at m_jump by simp
qed

end
